theory Spec2Isabelle
  imports Main "HOL-Library.Word"
begin

section \<open>Strings and JSON values of the host language\<close>

text \<open>
  \<^verbatim>\<open>script.js\<close> is browser glue code: it reads and writes \<^verbatim>\<open>localStorage\<close>,
  a handful of DOM elements and one module variable. The embedding keeps the
  functions of the script as they are written and models the browser around them.

  A JavaScript string is a sequence of 16-bit code units. \<open>js\<close> turns an
  Isabelle literal (ASCII) into such a string.
\<close>

type_synonym codeunit = "16 word"
type_synonym jsstring = "codeunit list"

definition js :: "string \<Rightarrow> jsstring" where
  "js s = map (\<lambda>c. of_nat (of_char c)) s"

text \<open>
  The values \<^verbatim>\<open>JSON.parse\<close> can return, and \<^verbatim>\<open>undefined\<close> (the value of a
  property that is not there). A number keeps the text of its literal: its value as
  a double is not interpreted here. An object lists its members in source order;
  a later member overrides an earlier one of the same name.
\<close>

datatype jsval =
    JUndefined
  | JNull
  | JBool bool
  | JNum jsstring
  | JStr jsstring
  | JArr "jsval list"
  | JObj "(jsstring \<times> jsval) list"

datatype error = SyntaxError | TypeError | URIError

text \<open>
  What the script uses of the platform and this development does not compute:
  whether a numeric literal denotes zero as a double, the decimal text of a number,
  and \<^verbatim>\<open>encodeURIComponent\<close> (\<open>None\<close> when it throws \<^verbatim>\<open>URIError\<close>). Every
  theorem below holds for every such platform.
\<close>

record platform =
  numberIsZero :: "jsstring \<Rightarrow> bool"
  numberToString :: "jsstring \<Rightarrow> jsstring"
  encodeURIComponent :: "jsstring \<Rightarrow> jsstring option"

subsection \<open>JSON.stringify on an object of string properties\<close>

definition hexdigit :: "nat \<Rightarrow> codeunit" where
  "hexdigit d = of_nat (if d < 10 then 48 + d else 87 + d)"

definition hex4 :: "codeunit \<Rightarrow> jsstring" where
  "hex4 c =
     (let n = unat c
      in [hexdigit (n div 4096), hexdigit (n div 256 mod 16),
          hexdigit (n div 16 mod 16), hexdigit (n mod 16)])"

definition is_lead :: "codeunit \<Rightarrow> bool" where
  "is_lead c \<longleftrightarrow> 0xD800 \<le> c \<and> c \<le> 0xDBFF"

definition is_trail :: "codeunit \<Rightarrow> bool" where
  "is_trail c \<longleftrightarrow> 0xDC00 \<le> c \<and> c \<le> 0xDFFF"

text \<open>
  One code unit inside a JSON string literal: the two-character escapes for
  backspace, tab, newline, form feed, carriage return, the double quote (0x22) and
  the backslash (0x5C); a lower-case \<^verbatim>\<open>\uXXXX\<close> for the other control characters
  and for a surrogate that is not part of a pair; the unit itself otherwise.
\<close>

definition quote_unit :: "codeunit \<Rightarrow> jsstring" where
  "quote_unit c =
     (if c = 0x08 then [0x5C, 0x62]
      else if c = 0x09 then [0x5C, 0x74]
      else if c = 0x0A then [0x5C, 0x6E]
      else if c = 0x0C then [0x5C, 0x66]
      else if c = 0x0D then [0x5C, 0x72]
      else if c = 0x22 then [0x5C, 0x22]
      else if c = 0x5C then [0x5C, 0x5C]
      else if c < 0x20 \<or> is_lead c \<or> is_trail c then [0x5C, 0x75] @ hex4 c
      else [c])"

fun quote_units :: "jsstring \<Rightarrow> jsstring" where
  "quote_units [] = []"
| "quote_units [c] = quote_unit c"
| "quote_units (c # d # cs) =
     (if is_lead c \<and> is_trail d then c # d # quote_units cs
      else quote_unit c @ quote_units (d # cs))"

definition QuoteJSONString :: "jsstring \<Rightarrow> jsstring" where
  "QuoteJSONString s = [0x22] @ quote_units s @ [0x22]"

fun serialize_props :: "(jsstring \<times> jsstring) list \<Rightarrow> jsstring" where
  "serialize_props [] = []"
| "serialize_props [(k, v)] = QuoteJSONString k @ js '':'' @ QuoteJSONString v"
| "serialize_props ((k, v) # p # ps) =
     QuoteJSONString k @ js '':'' @ QuoteJSONString v @ js '','' @ serialize_props (p # ps)"

text \<open>
  \<^verbatim>\<open>JSON.stringify(obj)\<close> for an object literal whose properties, in the order
  written, all hold strings: the only shape the script serialises.
\<close>

definition JSON_stringify :: "(jsstring \<times> jsstring) list \<Rightarrow> jsstring" where
  "JSON_stringify props = js ''{'' @ serialize_props props @ js ''}''"

subsection \<open>JSON.parse\<close>

definition is_ws :: "codeunit \<Rightarrow> bool" where
  "is_ws c \<longleftrightarrow> c = 0x20 \<or> c = 0x09 \<or> c = 0x0A \<or> c = 0x0D"

definition skip_ws :: "jsstring \<Rightarrow> jsstring" where
  "skip_ws s = dropWhile is_ws s"

definition hexval :: "codeunit \<Rightarrow> nat option" where
  "hexval c =
     (let n = unat c
      in if 48 \<le> n \<and> n \<le> 57 then Some (n - 48)
         else if 97 \<le> n \<and> n \<le> 102 then Some (n - 87)
         else if 65 \<le> n \<and> n \<le> 70 then Some (n - 55)
         else None)"

definition unhex4 :: "codeunit \<Rightarrow> codeunit \<Rightarrow> codeunit \<Rightarrow> codeunit \<Rightarrow> codeunit option" where
  "unhex4 a b c d =
     (case (hexval a, hexval b, hexval c, hexval d) of
        (Some p, Some q, Some r, Some s) \<Rightarrow> Some (of_nat (p * 4096 + q * 256 + r * 16 + s))
      | _ \<Rightarrow> None)"

definition unescape :: "codeunit \<Rightarrow> codeunit option" where
  "unescape e =
     (if e = 0x22 then Some 0x22
      else if e = 0x5C then Some 0x5C
      else if e = 0x2F then Some 0x2F
      else if e = 0x62 then Some 0x08
      else if e = 0x66 then Some 0x0C
      else if e = 0x6E then Some 0x0A
      else if e = 0x72 then Some 0x0D
      else if e = 0x74 then Some 0x09
      else None)"

definition consume :: "codeunit \<Rightarrow> (jsstring \<times> jsstring) option \<Rightarrow> (jsstring \<times> jsstring) option" where
  "consume c r = map_option (\<lambda>(s, rest). (c # s, rest)) r"

text \<open>
  The characters of a string literal after its opening quote, up to the closing
  one: the decoded string and the input that follows.
\<close>

fun parse_chars :: "jsstring \<Rightarrow> (jsstring \<times> jsstring) option" where
  "parse_chars [] = None"
| "parse_chars (c # cs) =
     (if c = 0x22 then Some ([], cs)
      else if c = 0x5C then
        (case cs of
           [] \<Rightarrow> None
         | e # r \<Rightarrow>
             if e = 0x75 then
               (case r of
                  h1 # h2 # h3 # h4 # r' \<Rightarrow>
                    (case unhex4 h1 h2 h3 h4 of
                       None \<Rightarrow> None
                     | Some u \<Rightarrow> consume u (parse_chars r'))
                | _ \<Rightarrow> None)
             else
               (case unescape e of
                  None \<Rightarrow> None
                | Some u \<Rightarrow> consume u (parse_chars r)))
      else if c < 0x20 then None
      else consume c (parse_chars cs))"

definition is_digit :: "codeunit \<Rightarrow> bool" where
  "is_digit c \<longleftrightarrow> 0x30 \<le> c \<and> c \<le> 0x39"

definition take_digits :: "jsstring \<Rightarrow> jsstring \<times> jsstring" where
  "take_digits s = (takeWhile is_digit s, dropWhile is_digit s)"

text \<open>
  A number literal:
  \<^verbatim>\<open>-? (0 | [1-9][0-9]*) (. [0-9]+)? ([eE] [+-]? [0-9]+)?\<close>
\<close>

definition parse_int_part :: "jsstring \<Rightarrow> (jsstring \<times> jsstring) option" where
  "parse_int_part s =
     (case s of
        [] \<Rightarrow> None
      | c # cs \<Rightarrow>
          if c = 0x30 then Some ([c], cs)
          else if is_digit c then (let (ds, r) = take_digits cs in Some (c # ds, r))
          else None)"

definition parse_frac_part :: "jsstring \<Rightarrow> (jsstring \<times> jsstring) option" where
  "parse_frac_part s =
     (case s of
        [] \<Rightarrow> Some ([], s)
      | c # cs \<Rightarrow>
          if c = 0x2E then
            (let (ds, r) = take_digits cs in if ds = [] then None else Some (c # ds, r))
          else Some ([], s))"

definition parse_exp_digits :: "jsstring \<Rightarrow> jsstring \<Rightarrow> (jsstring \<times> jsstring) option" where
  "parse_exp_digits pre s =
     (let (ds, r) = take_digits s in if ds = [] then None else Some (pre @ ds, r))"

definition parse_exp_part :: "jsstring \<Rightarrow> (jsstring \<times> jsstring) option" where
  "parse_exp_part s =
     (case s of
        [] \<Rightarrow> Some ([], s)
      | c # cs \<Rightarrow>
          if c = 0x65 \<or> c = 0x45 then
            (case cs of
               [] \<Rightarrow> None
             | d # ds \<Rightarrow>
                 if d = 0x2B \<or> d = 0x2D then parse_exp_digits [c, d] ds
                 else parse_exp_digits [c] cs)
          else Some ([], s))"

definition parse_number :: "jsstring \<Rightarrow> (jsstring \<times> jsstring) option" where
  "parse_number s =
     (let (sign, s1) =
            (case s of [] \<Rightarrow> ([], s) | c # cs \<Rightarrow> if c = 0x2D then ([c], cs) else ([], s))
      in case parse_int_part s1 of
           None \<Rightarrow> None
         | Some (ip, s2) \<Rightarrow>
             (case parse_frac_part s2 of
                None \<Rightarrow> None
              | Some (fp, s3) \<Rightarrow>
                  (case parse_exp_part s3 of
                     None \<Rightarrow> None
                   | Some (ep, s4) \<Rightarrow> Some (sign @ ip @ fp @ ep, s4))))"

definition strip_prefix :: "jsstring \<Rightarrow> jsstring \<Rightarrow> jsstring option" where
  "strip_prefix p s = (if take (length p) s = p then Some (drop (length p) s) else None)"

text \<open>
  The recursive descent over values, array elements and object members. The first
  argument bounds the number of nested calls; \<open>JSON_parse\<close> starts it at twice
  the length of the text, which no parse can use up (\<open>parse_value_fuel\<close> below).
  \<open>None\<close> is the \<^verbatim>\<open>SyntaxError\<close> of \<^verbatim>\<open>JSON.parse\<close>.
\<close>

fun parse_value :: "nat \<Rightarrow> jsstring \<Rightarrow> (jsval \<times> jsstring) option"
and parse_elements :: "nat \<Rightarrow> jsstring \<Rightarrow> (jsval list \<times> jsstring) option"
and parse_members :: "nat \<Rightarrow> jsstring \<Rightarrow> ((jsstring \<times> jsval) list \<times> jsstring) option"
where
  "parse_value 0 s = None"
| "parse_value (Suc n) s =
     (case skip_ws s of
        [] \<Rightarrow> None
      | c # cs \<Rightarrow>
          if c = 0x7B then
            (case skip_ws cs of
               [] \<Rightarrow> None
             | d # ds \<Rightarrow>
                 if d = 0x7D then Some (JObj [], ds)
                 else map_option (\<lambda>(ms, r). (JObj ms, r)) (parse_members n cs))
          else if c = 0x5B then
            (case skip_ws cs of
               [] \<Rightarrow> None
             | d # ds \<Rightarrow>
                 if d = 0x5D then Some (JArr [], ds)
                 else map_option (\<lambda>(vs, r). (JArr vs, r)) (parse_elements n cs))
          else if c = 0x22 then map_option (\<lambda>(t, r). (JStr t, r)) (parse_chars cs)
          else if c = 0x74 then
            map_option (\<lambda>r. (JBool True, r)) (strip_prefix (js ''true'') (c # cs))
          else if c = 0x66 then
            map_option (\<lambda>r. (JBool False, r)) (strip_prefix (js ''false'') (c # cs))
          else if c = 0x6E then
            map_option (\<lambda>r. (JNull, r)) (strip_prefix (js ''null'') (c # cs))
          else map_option (\<lambda>(l, r). (JNum l, r)) (parse_number (c # cs)))"
| "parse_elements 0 s = None"
| "parse_elements (Suc n) s =
     (case parse_value n s of
        None \<Rightarrow> None
      | Some (v, r) \<Rightarrow>
          (case skip_ws r of
             [] \<Rightarrow> None
           | c # cs \<Rightarrow>
               if c = 0x2C then map_option (\<lambda>(vs, r'). (v # vs, r')) (parse_elements n cs)
               else if c = 0x5D then Some ([v], cs)
               else None))"
| "parse_members 0 s = None"
| "parse_members (Suc n) s =
     (case skip_ws s of
        [] \<Rightarrow> None
      | q # cs \<Rightarrow>
          if q \<noteq> 0x22 then None
          else
            (case parse_chars cs of
               None \<Rightarrow> None
             | Some (k, r) \<Rightarrow>
                 (case skip_ws r of
                    [] \<Rightarrow> None
                  | c # r1 \<Rightarrow>
                      if c \<noteq> 0x3A then None
                      else
                        (case parse_value n r1 of
                           None \<Rightarrow> None
                         | Some (v, r2) \<Rightarrow>
                             (case skip_ws r2 of
                                [] \<Rightarrow> None
                              | e # r3 \<Rightarrow>
                                  if e = 0x2C then
                                    map_option (\<lambda>(ms, r'). ((k, v) # ms, r'))
                                      (parse_members n r3)
                                  else if e = 0x7D then Some ([(k, v)], r3)
                                  else None)))))"

definition JSON_parse :: "jsstring \<Rightarrow> jsval option" where
  "JSON_parse s =
     (case parse_value (Suc (2 * length s)) s of
        None \<Rightarrow> None
      | Some (v, r) \<Rightarrow> if skip_ws r = [] then Some v else None)"

subsection \<open>Property access, truthiness and conversion to a string\<close>

text \<open>
  \<^verbatim>\<open>obj.text\<close> and \<^verbatim>\<open>obj.image\<close>: reading a property of \<^verbatim>\<open>null\<close> throws
  \<^verbatim>\<open>TypeError\<close>; an object gives its last member of that name; everything else
  gives \<^verbatim>\<open>undefined\<close>, since no built-in prototype has a property of either name.
\<close>

fun getProperty :: "jsval \<Rightarrow> jsstring \<Rightarrow> error + jsval" where
  "getProperty JNull p = Inl TypeError"
| "getProperty JUndefined p = Inl TypeError"
| "getProperty (JObj ms) p =
     (case map_of (rev ms) p of None \<Rightarrow> Inr JUndefined | Some v \<Rightarrow> Inr v)"
| "getProperty v p = Inr JUndefined"

fun ToBoolean :: "platform \<Rightarrow> jsval \<Rightarrow> bool" where
  "ToBoolean P JUndefined = False"
| "ToBoolean P JNull = False"
| "ToBoolean P (JBool b) = b"
| "ToBoolean P (JNum l) = (\<not> numberIsZero P l)"
| "ToBoolean P (JStr s) = (s \<noteq> [])"
| "ToBoolean P (JArr vs) = True"
| "ToBoolean P (JObj ms) = True"

text \<open>The expression \<^verbatim>\<open>v || ''\<close>.\<close>

definition or_empty :: "platform \<Rightarrow> jsval \<Rightarrow> jsval" where
  "or_empty P v = (if ToBoolean P v then v else JStr [])"

text \<open>
  The conversion the DOM applies when a value is assigned to \<^verbatim>\<open>textarea.value\<close>
  or \<^verbatim>\<open>img.src\<close>. An array joins its elements with commas (\<^verbatim>\<open>null\<close> and
  \<^verbatim>\<open>undefined\<close> as the empty string). A parsed object has no callable
  \<^verbatim>\<open>toString\<close> of its own, so it prints as \<^verbatim>\<open>[object Object]\<close> unless a member
  named \<^verbatim>\<open>toString\<close> hides the inherited method, and then the conversion throws.
\<close>

fun ToString :: "platform \<Rightarrow> jsval \<Rightarrow> error + jsstring"
and join_elements :: "platform \<Rightarrow> jsval list \<Rightarrow> error + jsstring"
where
  "ToString P JUndefined = Inr (js ''undefined'')"
| "ToString P JNull = Inr (js ''null'')"
| "ToString P (JBool b) = Inr (if b then js ''true'' else js ''false'')"
| "ToString P (JNum l) = Inr (numberToString P l)"
| "ToString P (JStr s) = Inr s"
| "ToString P (JArr vs) = join_elements P vs"
| "ToString P (JObj ms) =
     (if map_of ms (js ''toString'') \<noteq> None then Inl TypeError
      else Inr (js ''[object Object]''))"
| "join_elements P [] = Inr []"
| "join_elements P (v # vs) =
     (case (if v = JNull \<or> v = JUndefined then Inr [] else ToString P v) of
        Inl e \<Rightarrow> Inl e
      | Inr a \<Rightarrow>
          if vs = [] then Inr a
          else (case join_elements P vs of
                  Inl e \<Rightarrow> Inl e
                | Inr b \<Rightarrow> Inr (a @ js '','' @ b)))"

section \<open>The page\<close>

text \<open>
  The elements the script looks up, each \<open>None\<close> when the page does not have
  it. An image preview has the two properties the script touches; a file chooser is
  the list of files the visitor selected (assigning \<^verbatim>\<open>''\<close> to its \<^verbatim>\<open>value\<close>
  empties the list). A property holds the string last assigned to it; for
  \<^verbatim>\<open>src\<close> that is how a browser treats an absolute URL such as a data URL. The
  elements of the popup and of the full-page editor are different elements.
  \<^verbatim>\<open>localStorage\<close> is a map from keys to strings without a quota:
  \<^verbatim>\<open>setItem\<close> always succeeds.
\<close>

datatype user_file = File nat

record image_element =
  src :: jsstring
  display :: jsstring

record modal_element =
  modal_display :: jsstring
  textarea :: "jsstring option"
  image_preview :: "image_element option"
  file_input :: "user_file list option"

text \<open>
  A \<^verbatim>\<open>FileReader\<close> whose \<^verbatim>\<open>onload\<close> has not run yet, with what its callback
  closed over: the popup's callback holds the text read when Save was pressed, the
  full page's callback holds the item of the page.
\<close>

datatype reader = ModalReader jsstring | PageReader jsstring

text \<open>
  The state one page of the site runs on: the module variable
  \<^verbatim>\<open>currentItemKey\<close> (\<open>None\<close> is \<^verbatim>\<open>null\<close>), the popup (\<^verbatim>\<open>#modal\<close>), the
  elements of the full-page editor (\<^verbatim>\<open>#item-heading\<close>, \<^verbatim>\<open>#item-text\<close>,
  \<^verbatim>\<open>#item-image\<close>, \<^verbatim>\<open>#item-file\<close>, \<^verbatim>\<open>#save-explanation\<close> with the items its
  click listeners closed over), the parameters of the query string,
  \<^verbatim>\<open>localStorage\<close>, the pending file reads, and what the page has sent to
  \<^verbatim>\<open>console.error\<close>, \<^verbatim>\<open>alert\<close> and \<^verbatim>\<open>window.open\<close>.
\<close>

record page =
  currentItemKey :: "jsstring option"
  modal :: "modal_element option"
  item_heading :: "jsstring option"
  item_text :: "jsstring option"
  item_image :: "image_element option"
  item_file :: "user_file list option"
  save_explanation :: "jsstring list option"
  query :: "jsstring \<rightharpoonup> jsstring"
  localStorage :: "jsstring \<rightharpoonup> jsstring"
  readers :: "(reader \<times> user_file) list"
  console :: "jsstring list"
  alerts :: "jsstring list"
  opened :: "jsstring list"

text \<open>
  A function that can throw returns \<open>Inl (e, s)\<close>: the exception and the page as
  it was when the exception left the function.
\<close>

type_synonym outcome = "(error \<times> page) + page"

definition storage_key :: "jsstring \<Rightarrow> jsstring" where
  "storage_key key = js ''explanation_'' @ key"

section \<open>The popup editor\<close>

text \<open>
  Lines 42 to 53 of \<^verbatim>\<open>openModal\<close>: the stored text is parsed inside
  \<^verbatim>\<open>try\<close>; \<open>try_parse\<close> is the body of the \<^verbatim>\<open>try\<close>, with the values
  \<^verbatim>\<open>text\<close> and \<^verbatim>\<open>imageData\<close> hold when it ends or throws.
\<close>

definition try_parse :: "platform \<Rightarrow> jsstring \<Rightarrow> error \<times> jsval \<times> jsval + jsval \<times> jsval" where
  "try_parse P stored =
     (case JSON_parse stored of
        None \<Rightarrow> Inl (SyntaxError, JStr [], JStr [])
      | Some obj \<Rightarrow>
          (case getProperty obj (js ''text'') of
             Inl e \<Rightarrow> Inl (e, JStr [], JStr [])
           | Inr t \<Rightarrow>
               (case getProperty obj (js ''image'') of
                  Inl e \<Rightarrow> Inl (e, or_empty P t, JStr [])
                | Inr i \<Rightarrow> Inr (or_empty P t, or_empty P i))))"

definition load :: "platform \<Rightarrow> jsstring \<Rightarrow> page \<Rightarrow> (jsval \<times> jsval) \<times> page" where
  "load P key s =
     (case localStorage s (storage_key key) of
        None \<Rightarrow> ((JStr [], JStr []), s)
      | Some stored \<Rightarrow>
          if stored = [] then ((JStr [], JStr []), s)
          else
            (case try_parse P stored of
               Inl (e, text, imageData) \<Rightarrow>
                 ((text, imageData),
                  s\<lparr>console := console s @ [js ''Error parsing saved content'']\<rparr>)
             | Inr (text, imageData) \<Rightarrow> ((text, imageData), s)))"

text \<open>Lines 55 to 71: the fields of the popup are filled and the popup is shown.\<close>

definition show_preview :: "platform \<Rightarrow> jsval \<Rightarrow> image_element \<Rightarrow> error + image_element" where
  "show_preview P imageData img =
     (if ToBoolean P imageData then
        (case ToString P imageData of
           Inl e \<Rightarrow> Inl e
         | Inr v \<Rightarrow> Inr (img\<lparr>src := v, display := js ''block''\<rparr>))
      else Inr (img\<lparr>display := js ''none''\<rparr>))"

definition populate :: "platform \<Rightarrow> jsval \<Rightarrow> jsval \<Rightarrow> modal_element \<Rightarrow> error \<times> modal_element + modal_element" where
  "populate P text imageData m =
     (case (case textarea m of
              None \<Rightarrow> Inr m
            | Some old \<Rightarrow>
                (case ToString P text of
                   Inl e \<Rightarrow> Inl (e, m)
                 | Inr v \<Rightarrow> Inr (m\<lparr>textarea := Some v\<rparr>))) of
        Inl x \<Rightarrow> Inl x
      | Inr m1 \<Rightarrow>
          (case (case image_preview m1 of
                   None \<Rightarrow> Inr m1
                 | Some img \<Rightarrow>
                     (case show_preview P imageData img of
                        Inl e \<Rightarrow> Inl (e, m1)
                      | Inr img' \<Rightarrow> Inr (m1\<lparr>image_preview := Some img'\<rparr>))) of
             Inl x \<Rightarrow> Inl x
           | Inr m2 \<Rightarrow>
               Inr (m2\<lparr>file_input := map_option (\<lambda>files. []) (file_input m2),
                        modal_display := js ''flex''\<rparr>)))"

definition openModal :: "platform \<Rightarrow> jsstring \<Rightarrow> page \<Rightarrow> outcome" where
  "openModal P key s =
     (let s1 = s\<lparr>currentItemKey := Some key\<rparr>
      in case modal s1 of
           None \<Rightarrow> Inr s1
         | Some m \<Rightarrow>
             (let ((text, imageData), s2) = load P key s1
              in case populate P text imageData m of
                   Inl (e, m') \<Rightarrow> Inl (e, s2\<lparr>modal := Some m'\<rparr>)
                 | Inr m' \<Rightarrow> Inr (s2\<lparr>modal := Some m'\<rparr>)))"

definition closeModal :: "page \<Rightarrow> page" where
  "closeModal s =
     s\<lparr>modal := map_option (\<lambda>m. m\<lparr>modal_display := js ''none''\<rparr>) (modal s),
       currentItemKey := None\<rparr>"

text \<open>
  \<^verbatim>\<open>'explanation_' + currentItemKey\<close>: the concatenation turns \<^verbatim>\<open>null\<close> into
  the text \<^verbatim>\<open>null\<close>.
\<close>

definition key_text :: "jsstring option \<Rightarrow> jsstring" where
  "key_text k = (case k of None \<Rightarrow> js ''null'' | Some key \<Rightarrow> key)"

text \<open>
  The record written by either editor: \<^verbatim>\<open>{ text: text, image: imageData || '' }\<close>,
  serialised.
\<close>

definition record_json :: "jsstring \<Rightarrow> jsstring \<Rightarrow> jsstring" where
  "record_json text imageData =
     JSON_stringify [(js ''text'', text), (js ''image'', if imageData \<noteq> [] then imageData else [])]"

text \<open>
  \<^verbatim>\<open>storeContent\<close> of \<^verbatim>\<open>saveModal\<close> (lines 96 to 100): \<^verbatim>\<open>text\<close> was read when
  \<^verbatim>\<open>saveModal\<close> ran; \<^verbatim>\<open>currentItemKey\<close> is read when \<^verbatim>\<open>storeContent\<close> runs.
\<close>

definition storeContent :: "jsstring \<Rightarrow> jsstring \<Rightarrow> page \<Rightarrow> page" where
  "storeContent text imageData s =
     closeModal
       (s\<lparr>localStorage :=
            (localStorage s)(js ''explanation_'' @ key_text (currentItemKey s) \<mapsto>
               record_json text imageData)\<rparr>)"

definition displayed_src :: "image_element option \<Rightarrow> jsstring" where
  "displayed_src preview =
     (case preview of
        None \<Rightarrow> []
      | Some img \<Rightarrow> if display img \<noteq> js ''none'' then src img else [])"

text \<open>\<^verbatim>\<open>textarea ? textarea.value : ''\<close>\<close>

definition textarea_value :: "modal_element \<Rightarrow> jsstring" where
  "textarea_value m = (case textarea m of None \<Rightarrow> [] | Some v \<Rightarrow> v)"

text \<open>
  \<^verbatim>\<open>saveModal\<close>: nothing happens without the popup or while
  \<^verbatim>\<open>currentItemKey\<close> is \<^verbatim>\<open>null\<close> or empty. With a chosen file the function
  only starts the read and returns; the record is written by \<open>modal_onload\<close>.
\<close>

definition saveModal :: "page \<Rightarrow> page" where
  "saveModal s =
     (case modal s of
        None \<Rightarrow> s
      | Some m \<Rightarrow>
          (case currentItemKey s of
             None \<Rightarrow> s
           | Some key \<Rightarrow>
               if key = [] then s
               else
                 (let text = textarea_value m
                  in case file_input m of
                       Some (f # fs) \<Rightarrow> s\<lparr>readers := readers s @ [(ModalReader text, f)]\<rparr>
                     | _ \<Rightarrow> storeContent text (displayed_src (image_preview m)) s)))"

definition show_data :: "jsstring \<Rightarrow> image_element \<Rightarrow> image_element" where
  "show_data dataURL img = img\<lparr>src := dataURL, display := js ''block''\<rparr>"

text \<open>
  \<^verbatim>\<open>reader.onload\<close> of \<^verbatim>\<open>saveModal\<close> (lines 104 to 112), called by the browser
  with the data URL once the file has been read.
\<close>

definition modal_onload :: "jsstring \<Rightarrow> jsstring \<Rightarrow> page \<Rightarrow> page" where
  "modal_onload text dataURL s =
     storeContent text dataURL
       (s\<lparr>modal :=
            map_option
              (\<lambda>m. m\<lparr>image_preview := map_option (show_data dataURL) (image_preview m)\<rparr>)
              (modal s)\<rparr>)"

definition expandModal :: "platform \<Rightarrow> page \<Rightarrow> outcome" where
  "expandModal P s =
     (case currentItemKey s of
        None \<Rightarrow> Inr s
      | Some key \<Rightarrow>
          if key = [] then Inr s
          else
            (case encodeURIComponent P key of
               None \<Rightarrow> Inl (URIError, s)
             | Some q \<Rightarrow> Inr (s\<lparr>opened := opened s @ [js ''explanation.html?item='' @ q]\<rparr>)))"

section \<open>The full-page editor\<close>

definition getQueryParam :: "jsstring \<Rightarrow> page \<Rightarrow> jsstring option" where
  "getQueryParam name s = query s name"

text \<open>
  \<^verbatim>\<open>item.replace(/-/g, ' ')\<close>, then
  \<^verbatim>\<open>.replace(/\b\w/g, function(c) { return c.toUpperCase(); })\<close>. The class
  \<^verbatim>\<open>\w\<close> is \<^verbatim>\<open>[A-Za-z0-9_]\<close>; \<^verbatim>\<open>\b\w\<close> matches a word character that is
  the first of the string or follows a character outside the class. The scan goes
  left to right over the string as it was before the replacement; its first
  argument says whether the previous character is a word character.
\<close>

definition replace_hyphens :: "jsstring \<Rightarrow> jsstring" where
  "replace_hyphens s = map (\<lambda>c. if c = 0x2D then 0x20 else c) s"

definition is_word :: "codeunit \<Rightarrow> bool" where
  "is_word c \<longleftrightarrow>
     (0x41 \<le> c \<and> c \<le> 0x5A) \<or> (0x61 \<le> c \<and> c \<le> 0x7A) \<or> (0x30 \<le> c \<and> c \<le> 0x39) \<or> c = 0x5F"

definition toUpperCase :: "codeunit \<Rightarrow> codeunit" where
  "toUpperCase c = (if 0x61 \<le> c \<and> c \<le> 0x7A then c - 0x20 else c)"

fun replace_word_starts :: "bool \<Rightarrow> jsstring \<Rightarrow> jsstring" where
  "replace_word_starts prev [] = []"
| "replace_word_starts prev (c # cs) =
     (if is_word c \<and> \<not> prev then toUpperCase c else c) # replace_word_starts (is_word c) cs"

definition format_heading :: "jsstring \<Rightarrow> jsstring" where
  "format_heading item = replace_word_starts False (replace_hyphens item)"

text \<open>
  The body of the \<^verbatim>\<open>try\<close> in \<^verbatim>\<open>initExplanationPage\<close> (lines 160 to 169). A
  property of \<^verbatim>\<open>obj\<close> is read only when its element is there.
\<close>

definition fill_text :: "platform \<Rightarrow> jsval \<Rightarrow> page \<Rightarrow> outcome" where
  "fill_text P obj s =
     (case item_text s of
        None \<Rightarrow> Inr s
      | Some old \<Rightarrow>
          (case getProperty obj (js ''text'') of
             Inl e \<Rightarrow> Inl (e, s)
           | Inr t \<Rightarrow>
               (case ToString P (or_empty P t) of
                  Inl e \<Rightarrow> Inl (e, s)
                | Inr v \<Rightarrow> Inr (s\<lparr>item_text := Some v\<rparr>))))"

definition fill_image :: "platform \<Rightarrow> jsval \<Rightarrow> page \<Rightarrow> outcome" where
  "fill_image P obj s =
     (case item_image s of
        None \<Rightarrow> Inr s
      | Some img \<Rightarrow>
          (case getProperty obj (js ''image'') of
             Inl e \<Rightarrow> Inl (e, s)
           | Inr i \<Rightarrow>
               (case show_preview P i img of
                  Inl e \<Rightarrow> Inl (e, s)
                | Inr img' \<Rightarrow> Inr (s\<lparr>item_image := Some img'\<rparr>))))"

definition try_fill :: "platform \<Rightarrow> jsstring \<Rightarrow> page \<Rightarrow> outcome" where
  "try_fill P stored s =
     (case JSON_parse stored of
        None \<Rightarrow> Inl (SyntaxError, s)
      | Some obj \<Rightarrow>
          (case fill_text P obj s of
             Inl x \<Rightarrow> Inl x
           | Inr s1 \<Rightarrow> fill_image P obj s1))"

definition load_page :: "platform \<Rightarrow> jsstring \<Rightarrow> page \<Rightarrow> page" where
  "load_page P item s =
     (case localStorage s (storage_key item) of
        None \<Rightarrow> s
      | Some stored \<Rightarrow>
          if stored = [] then s
          else
            (case try_fill P stored s of
               Inl (e, s') \<Rightarrow> s'\<lparr>console := console s' @ [js ''Error parsing explanation data'']\<rparr>
             | Inr s' \<Rightarrow> s'))"

definition initExplanationPage :: "platform \<Rightarrow> page \<Rightarrow> page" where
  "initExplanationPage P s =
     (case getQueryParam (js ''item'') s of
        None \<Rightarrow> s
      | Some item \<Rightarrow>
          if item = [] then s
          else
            (let s1 = s\<lparr>item_heading := map_option (\<lambda>old. format_heading item) (item_heading s)\<rparr>;
                 s2 = load_page P item s1
             in s2\<lparr>save_explanation :=
                      map_option (\<lambda>listeners. listeners @ [item]) (save_explanation s2)\<rparr>))"

text \<open>
  \<^verbatim>\<open>storeContent\<close> of the save listener (lines 179 to 183). The object literal
  reads \<^verbatim>\<open>textarea.value\<close> first, and \<^verbatim>\<open>textarea\<close> is not tested: without the
  element the read throws \<^verbatim>\<open>TypeError\<close> before anything is written.
\<close>

definition storeContent_page :: "jsstring \<Rightarrow> jsstring \<Rightarrow> page \<Rightarrow> outcome" where
  "storeContent_page item imageData s =
     (case item_text s of
        None \<Rightarrow> Inl (TypeError, s)
      | Some text \<Rightarrow>
          Inr (s\<lparr>localStorage := (localStorage s)(storage_key item \<mapsto> record_json text imageData),
                 alerts := alerts s @ [js ''Saved successfully'']\<rparr>))"

text \<open>The click listener of \<^verbatim>\<open>#save-explanation\<close> (lines 177 to 199).\<close>

definition save_click :: "jsstring \<Rightarrow> page \<Rightarrow> outcome" where
  "save_click item s =
     (case item_file s of
        Some (f # fs) \<Rightarrow> Inr (s\<lparr>readers := readers s @ [(PageReader item, f)]\<rparr>)
      | _ \<Rightarrow> storeContent_page item (displayed_src (item_image s)) s)"

text \<open>\<^verbatim>\<open>reader.onload\<close> of the save listener (lines 186 to 193).\<close>

definition page_onload :: "jsstring \<Rightarrow> jsstring \<Rightarrow> page \<Rightarrow> outcome" where
  "page_onload item dataURL s =
     storeContent_page item dataURL
       (s\<lparr>item_image := map_option (show_data dataURL) (item_image s)\<rparr>)"

text \<open>
  \<^verbatim>\<open>initPageScripts\<close> (lines 207 to 223). Its first part installs the click
  listeners on the triggers and on the backdrop of the popup; they are the events
  \<open>Open\<close> and \<open>Close\<close> below. Its second part starts the full-page editor on a
  page that has the heading.
\<close>

definition initPageScripts :: "platform \<Rightarrow> page \<Rightarrow> page" where
  "initPageScripts P s = (if item_heading s = None then s else initExplanationPage P s)"

section \<open>Events\<close>

text \<open>
  What can happen on a page, one event at a time: the visitor activates a trigger
  of an item, the Cancel, Save or Expand control of the popup, types into a text
  area, chooses files; the document finishes loading; the Save button of the full
  page is clicked; a pending file read completes with its data URL. An exception
  that leaves a handler is reported by the browser and the page goes on in the
  state the handler left.
\<close>

datatype event =
    Open jsstring
  | Close
  | Save
  | Expand
  | TypeText jsstring
  | ChooseFiles "user_file list"
  | InitPage
  | TypePageText jsstring
  | ChoosePageFiles "user_file list"
  | ClickSave
  | Loaded nat jsstring

definition settle :: "outcome \<Rightarrow> page" where
  "settle r = (case r of Inl (e, s) \<Rightarrow> s | Inr s \<Rightarrow> s)"

definition fire :: "reader \<Rightarrow> jsstring \<Rightarrow> page \<Rightarrow> page" where
  "fire r dataURL s =
     (case r of
        ModalReader text \<Rightarrow> modal_onload text dataURL s
      | PageReader item \<Rightarrow> settle (page_onload item dataURL s))"

definition remove_nth :: "nat \<Rightarrow> 'a list \<Rightarrow> 'a list" where
  "remove_nth n xs = take n xs @ drop (Suc n) xs"

fun step :: "platform \<Rightarrow> event \<Rightarrow> page \<Rightarrow> page" where
  "step P (Open key) s = settle (openModal P key s)"
| "step P Close s = closeModal s"
| "step P Save s = saveModal s"
| "step P Expand s = settle (expandModal P s)"
| "step P (TypeText v) s =
     s\<lparr>modal := map_option (\<lambda>m. m\<lparr>textarea := map_option (\<lambda>old. v) (textarea m)\<rparr>) (modal s)\<rparr>"
| "step P (ChooseFiles fs) s =
     s\<lparr>modal := map_option (\<lambda>m. m\<lparr>file_input := map_option (\<lambda>old. fs) (file_input m)\<rparr>) (modal s)\<rparr>"
| "step P InitPage s = initPageScripts P s"
| "step P (TypePageText v) s = s\<lparr>item_text := map_option (\<lambda>old. v) (item_text s)\<rparr>"
| "step P (ChoosePageFiles fs) s = s\<lparr>item_file := map_option (\<lambda>old. fs) (item_file s)\<rparr>"
| "step P ClickSave s =
     (case save_explanation s of
        None \<Rightarrow> s
      | Some listeners \<Rightarrow> fold (\<lambda>item s'. settle (save_click item s')) listeners s)"
| "step P (Loaded n dataURL) s =
     (if n < length (readers s)
      then fire (fst (readers s ! n)) dataURL (s\<lparr>readers := remove_nth n (readers s)\<rparr>)
      else s)"

fun run :: "platform \<Rightarrow> event list \<Rightarrow> page \<Rightarrow> page" where
  "run P [] s = s"
| "run P (e # es) s = run P es (step P e s)"

section \<open>Observations and example pages\<close>

text \<open>
  A stored value is a record when it parses, its \<^verbatim>\<open>text\<close> and \<^verbatim>\<open>image\<close>
  properties are strings, and it is, character for character, the serialisation of
  the object with exactly these two properties.
\<close>

definition record_fields :: "jsstring \<Rightarrow> (jsstring \<times> jsstring) option" where
  "record_fields v =
     (case JSON_parse v of
        None \<Rightarrow> None
      | Some obj \<Rightarrow>
          (case (getProperty obj (js ''text''), getProperty obj (js ''image'')) of
             (Inr (JStr t), Inr (JStr i)) \<Rightarrow> Some (t, i)
           | _ \<Rightarrow> None))"

definition is_record :: "jsstring \<Rightarrow> bool" where
  "is_record v = (case record_fields v of None \<Rightarrow> False | Some (t, i) \<Rightarrow> v = record_json t i)"

definition entry_ok :: "jsstring option \<Rightarrow> bool" where
  "entry_ok e = (case e of None \<Rightarrow> True | Some v \<Rightarrow> is_record v)"


text \<open>The events that belong to a save: pressing a Save control, and a file read completing.\<close>

definition saving :: "event \<Rightarrow> bool" where
  "saving e = (case e of Save \<Rightarrow> True | ClickSave \<Rightarrow> True | Loaded n d \<Rightarrow> True | _ \<Rightarrow> False)"




text \<open>Pages and a platform to run the definitions on.\<close>

definition example_platform :: platform where
  "example_platform =
     \<lparr>numberIsZero = (\<lambda>l. l = js ''0''), numberToString = (\<lambda>l. l), encodeURIComponent = Some\<rparr>"

definition blank_page :: page where
  "blank_page =
     \<lparr>currentItemKey = None, modal = None, item_heading = None, item_text = None,
      item_image = None, item_file = None, save_explanation = None, query = Map.empty,
      localStorage = Map.empty, readers = [], console = [], alerts = [], opened = []\<rparr>"

definition hidden_image :: image_element where
  "hidden_image = \<lparr>src = [], display = js ''none''\<rparr>"

definition popup_page :: page where
  "popup_page =
     blank_page\<lparr>modal :=
       Some \<lparr>modal_display = js ''none'', textarea = Some [],
             image_preview = Some hidden_image, file_input = Some []\<rparr>\<rparr>"

definition editor_page :: "jsstring \<Rightarrow> page" where
  "editor_page item =
     blank_page\<lparr>item_heading := Some [], item_text := Some [], item_image := Some hidden_image,
       item_file := Some [], save_explanation := Some [], query := [js ''item'' \<mapsto> item]\<rparr>"


definition noted_page :: page where
  "noted_page =
     popup_page\<lparr>localStorage :=
       [storage_key (js ''cash'') \<mapsto> record_json (js ''Operating cash balance'') (js ''data:a''),
        storage_key (js ''debt'') \<mapsto> record_json (js ''Long-term debt'') []]\<rparr>"

definition page_without_textarea :: page where
  "page_without_textarea =
     initExplanationPage example_platform ((editor_page (js ''cash''))\<lparr>item_text := None\<rparr>)"

definition old_image :: image_element where
  "old_image = \<lparr>src = js ''data:old'', display = js ''block''\<rparr>"

definition editing_modal :: modal_element where
  "editing_modal =
     \<lparr>modal_display = js ''flex'', textarea = Some (js ''note''),
      image_preview = Some old_image, file_input = Some []\<rparr>"

definition editing_page :: page where
  "editing_page = blank_page\<lparr>currentItemKey := Some (js ''cash''), modal := Some editing_modal\<rparr>"

definition chosen_modal :: modal_element where
  "chosen_modal = editing_modal\<lparr>file_input := Some [File 1]\<rparr>"

definition chosen_page :: page where
  "chosen_page = blank_page\<lparr>currentItemKey := Some (js ''cash''), modal := Some chosen_modal\<rparr>"

definition empty_key_page :: page where
  "empty_key_page = blank_page\<lparr>currentItemKey := Some [], modal := Some editing_modal\<rparr>"

definition typed_editor :: page where
  "typed_editor =
     (editor_page (js ''cash''))\<lparr>item_text := Some (js ''note''), item_image := Some old_image\<rparr>"

definition chosen_editor :: page where
  "chosen_editor = typed_editor\<lparr>item_file := Some [File 1]\<rparr>"

section \<open>Parsing what was serialised\<close>

lemma unat_hexdigit: "d < 16 \<Longrightarrow> unat (hexdigit d) = (if d < 10 then 48 + d else 87 + d)"
  by (simp add: hexdigit_def unat_of_nat)

lemma hexval_hexdigit: "d < 16 \<Longrightarrow> hexval (hexdigit d) = Some d"
  by (simp add: hexval_def unat_hexdigit Let_def)

lemma nibbles_aux:
  fixes n :: nat
  assumes "n = m1 * 16 + r0" and "m1 = m2 * 16 + r1" and "m2 = m3 * 16 + r2"
  shows "m3 * 4096 + r2 * 256 + r1 * 16 + r0 = n"
  using assms by simp

lemma nibbles:
  fixes n :: nat
  shows "n div 4096 * 4096 + n div 256 mod 16 * 256 + n div 16 mod 16 * 16 + n mod 16 = n"
proof (rule nibbles_aux)
  show "n = n div 16 * 16 + n mod 16" by simp
  show "n div 16 = n div 256 * 16 + n div 16 mod 16"
    using div_mult_mod_eq [of "n div 16" 16] by (simp add: div_mult2_eq [symmetric])
  show "n div 256 = n div 4096 * 16 + n div 256 mod 16"
    using div_mult_mod_eq [of "n div 256" 16] by (simp add: div_mult2_eq [symmetric])
qed

lemma unhex4_hex4: "hex4 c = [h1, h2, h3, h4] \<Longrightarrow> unhex4 h1 h2 h3 h4 = Some c"
proof -
  assume h: "hex4 c = [h1, h2, h3, h4]"
  define n where "n = unat c"
  have n: "n < 65536" using unsigned_less [of c, where ?'a = nat] by (simp add: n_def)
  have b: "n div 4096 < 16" "n div 256 mod 16 < 16" "n div 16 mod 16 < 16" "n mod 16 < 16"
    using n by simp_all
  have hs: "h1 = hexdigit (n div 4096)" "h2 = hexdigit (n div 256 mod 16)"
    "h3 = hexdigit (n div 16 mod 16)" "h4 = hexdigit (n mod 16)"
    using h by (simp_all add: hex4_def Let_def n_def)
  have "unhex4 h1 h2 h3 h4 =
      Some (of_nat (n div 4096 * 4096 + n div 256 mod 16 * 256 + n div 16 mod 16 * 16 + n mod 16))"
    unfolding unhex4_def hs by (simp only: hexval_hexdigit [OF b(1)] hexval_hexdigit [OF b(2)]
        hexval_hexdigit [OF b(3)] hexval_hexdigit [OF b(4)] prod.case option.case)
  also have "\<dots> = Some (of_nat n)" by (simp only: nibbles)
  also have "\<dots> = Some c" by (simp add: n_def)
  finally show ?thesis .
qed

lemma consume_Some: "consume c (Some (s, r)) = Some (c # s, r)"
  by (simp add: consume_def)

lemma parse_chars_quote_unit: "parse_chars (quote_unit c @ t) = consume c (parse_chars t)"
proof -
  obtain h1 h2 h3 h4 where h: "hex4 c = [h1, h2, h3, h4]"
    by (simp add: hex4_def Let_def)
  show ?thesis
    using unhex4_hex4 [OF h]
    by (simp add: quote_unit_def h unescape_def)
qed

lemma surrogate_plain:
  fixes c :: codeunit
  assumes "0xD800 \<le> c"
  shows "c \<noteq> 0x22 \<and> c \<noteq> 0x5C \<and> \<not> c < 0x20"
proof -
  have "55296 \<le> unat c" using assms by (simp add: word_le_nat_alt)
  then show ?thesis by (auto simp: word_less_nat_alt)
qed

lemma parse_chars_pair:
  "is_lead c \<Longrightarrow> is_trail d \<Longrightarrow> parse_chars (c # d # t) = consume c (consume d (parse_chars t))"
proof -
  assume "is_lead c" and "is_trail d"
  then have c: "0xD800 \<le> c" and d: "0xD800 \<le> d"
    by (auto simp: is_lead_def is_trail_def word_le_nat_alt)
  show ?thesis
    using surrogate_plain [OF c] surrogate_plain [OF d] by simp
qed

lemma parse_chars_quote_units:
  "parse_chars (quote_units s @ 0x22 # rest) = Some (s, rest)"
proof (induction s rule: quote_units.induct)
  case 1
  show ?case by simp
next
  case (2 c)
  show ?case
    by (simp only: quote_units.simps parse_chars_quote_unit) (simp add: consume_Some)
next
  case (3 c d cs)
  show ?case
  proof (cases "is_lead c \<and> is_trail d")
    case True
    then have "quote_units (c # d # cs) = c # d # quote_units cs"
      by simp
    then show ?thesis
      using True 3(1) [OF True] by (simp add: parse_chars_pair consume_Some del: parse_chars.simps)
  next
    case False
    then have "quote_units (c # d # cs) = quote_unit c @ quote_units (d # cs)"
      by auto
    then show ?thesis
      using 3(2) [OF False] by (simp add: parse_chars_quote_unit consume_Some del: parse_chars.simps)
  qed
qed

lemma skip_ws_Cons: "\<not> is_ws c \<Longrightarrow> skip_ws (c # cs) = c # cs"
  by (simp add: skip_ws_def)

lemma parse_value_string:
  "parse_value (Suc n) (QuoteJSONString v @ rest) = Some (JStr v, rest)"
  by (simp add: QuoteJSONString_def skip_ws_Cons is_ws_def parse_chars_quote_units)

lemma js_Nil: "js [] = []"
  by (simp add: js_def)

lemma js_Cons: "js (c # cs) = of_nat (of_char c) # js cs"
  by (simp add: js_def)

lemma parse_members_last:
  "parse_members (Suc (Suc n)) (QuoteJSONString k @ js '':'' @ QuoteJSONString v @ js ''}'' @ rest)
     = Some ([(k, JStr v)], rest)"
proof -
  have "parse_members (Suc (Suc n))
          (0x22 # (quote_units k @ 0x22 # (0x3A # (QuoteJSONString v @ (0x7D # rest)))))
     = Some ([(k, JStr v)], rest)"
    by (simp add: skip_ws_Cons is_ws_def parse_chars_quote_units parse_value_string
        del: parse_chars.simps parse_value.simps)
  then show ?thesis by (simp add: QuoteJSONString_def js_def)
qed

lemma parse_members_more:
  "parse_members (Suc (Suc n)) (QuoteJSONString k @ js '':'' @ QuoteJSONString v @ js '','' @ rest)
     = map_option (\<lambda>(ms, r'). ((k, JStr v) # ms, r')) (parse_members (Suc n) rest)"
proof -
  have "parse_members (Suc (Suc n))
          (0x22 # (quote_units k @ 0x22 # (0x3A # (QuoteJSONString v @ (0x2C # rest)))))
     = map_option (\<lambda>(ms, r'). ((k, JStr v) # ms, r')) (parse_members (Suc n) rest)"
    by (subst parse_members.simps(2))
       (simp add: skip_ws_Cons is_ws_def parse_chars_quote_units parse_value_string
          del: parse_chars.simps parse_value.simps parse_members.simps)
  then show ?thesis by (simp add: QuoteJSONString_def js_def)
qed

lemma parse_value_record:
  "parse_value (Suc (Suc (Suc (Suc n)))) (JSON_stringify [(k1, v1), (k2, v2)] @ rest)
     = Some (JObj [(k1, JStr v1), (k2, JStr v2)], rest)"
proof -
  have m: "parse_members (Suc (Suc (Suc n)))
             (QuoteJSONString k1 @ js '':'' @ QuoteJSONString v1 @ js '','' @
              (QuoteJSONString k2 @ js '':'' @ QuoteJSONString v2 @ js ''}'' @ rest))
           = Some ([(k1, JStr v1), (k2, JStr v2)], rest)"
    by (simp only: parse_members_more parse_members_last) simp
  have s: "JSON_stringify [(k1, v1), (k2, v2)] @ rest
           = 0x7B # (0x22 # quote_units k1 @ 0x22 # js '':'' @ QuoteJSONString v1 @ js '','' @
              (QuoteJSONString k2 @ js '':'' @ QuoteJSONString v2 @ js ''}'' @ rest))"
    by (simp add: JSON_stringify_def QuoteJSONString_def js_def)
  have m': "parse_members (Suc (Suc (Suc n)))
             (0x22 # quote_units k1 @ 0x22 # js '':'' @ QuoteJSONString v1 @ js '','' @
              (QuoteJSONString k2 @ js '':'' @ QuoteJSONString v2 @ js ''}'' @ rest))
           = Some ([(k1, JStr v1), (k2, JStr v2)], rest)"
    using m by (simp add: QuoteJSONString_def)
  show ?thesis
    unfolding s
    by (subst parse_value.simps(2))
       (simp add: skip_ws_Cons is_ws_def m' del: parse_value.simps parse_members.simps parse_chars.simps)
qed

lemma length_JSON_stringify: "2 \<le> length (JSON_stringify ps)"
  by (simp add: JSON_stringify_def js_def)

lemma JSON_parse_stringify:
  "JSON_parse (JSON_stringify [(k1, v1), (k2, v2)]) = Some (JObj [(k1, JStr v1), (k2, JStr v2)])"
proof -
  let ?s = "JSON_stringify [(k1, v1), (k2, v2)]"
  have "2 * length ?s = Suc (Suc (Suc (2 * length ?s - 3)))"
    using length_JSON_stringify [of "[(k1, v1), (k2, v2)]"] by linarith
  then obtain n where n: "2 * length ?s = Suc (Suc (Suc n))" ..
  have "parse_value (Suc (2 * length ?s)) (?s @ []) = Some (JObj [(k1, JStr v1), (k2, JStr v2)], [])"
    unfolding n by (rule parse_value_record)
  then show ?thesis
    by (simp add: JSON_parse_def skip_ws_def)
qed

lemma record_json_eq: "record_json t i = JSON_stringify [(js ''text'', t), (js ''image'', i)]"
  by (simp add: record_json_def)

lemma JSON_parse_record:
  "JSON_parse (record_json t i) = Some (JObj [(js ''text'', JStr t), (js ''image'', JStr i)])"
  by (simp only: record_json_eq JSON_parse_stringify)

lemma record_json_not_empty: "record_json t i \<noteq> []"
  by (simp add: record_json_def JSON_stringify_def js_def)

lemma text_neq_image: "js ''image'' \<noteq> js ''text''" "js ''text'' \<noteq> js ''image''"
  by (simp_all add: js_def)

lemma record_fields_record_json: "record_fields (record_json t i) = Some (t, i)"
  by (simp add: record_fields_def JSON_parse_record text_neq_image)

lemma is_record_record_json: "is_record (record_json t i)"
  by (simp add: is_record_def record_fields_record_json)

lemma is_recordE:
  assumes "is_record v"
  obtains t i where "v = record_json t i"
  using assms by (auto simp: is_record_def split: option.splits)

lemma or_empty_JStr: "or_empty P (JStr t) = JStr t"
  by (simp add: or_empty_def)

lemma try_parse_record: "try_parse P (record_json t i) = Inr (JStr t, JStr i)"
  by (simp add: try_parse_def JSON_parse_record or_empty_JStr text_neq_image)

lemma load_absent:
  "localStorage s (storage_key key) = None \<Longrightarrow> load P key s = ((JStr [], JStr []), s)"
  by (simp add: load_def)

lemma load_record:
  "localStorage s (storage_key key) = Some (record_json t i) \<Longrightarrow>
   load P key s = ((JStr t, JStr i), s)"
  by (simp add: load_def try_parse_record record_json_not_empty)

lemma localStorage_load: "localStorage (snd (load P key s)) = localStorage s"
  by (simp add: load_def split: option.splits sum.splits prod.splits)

lemma localStorage_openModal: "localStorage (settle (openModal P key s)) = localStorage s"
proof -
  have "localStorage (snd (load P key (s\<lparr>currentItemKey := Some key\<rparr>))) = localStorage s"
    by (simp add: localStorage_load)
  then show ?thesis
    by (auto simp: openModal_def settle_def Let_def split: option.splits sum.splits prod.splits)
qed

lemma localStorage_closeModal: "localStorage (closeModal s) = localStorage s"
  by (simp add: closeModal_def)

lemma localStorage_expandModal: "localStorage (settle (expandModal P s)) = localStorage s"
  by (simp add: expandModal_def settle_def split: option.splits)

lemma localStorage_storeContent:
  "localStorage (storeContent text imageData s) =
     (localStorage s)(js ''explanation_'' @ key_text (currentItemKey s) \<mapsto> record_json text imageData)"
  by (simp add: storeContent_def closeModal_def)

lemma entry_ok_update:
  "entry_ok (m K) \<Longrightarrow> entry_ok ((m(k \<mapsto> record_json t i)) K)"
  by (simp add: entry_ok_def is_record_record_json)

lemma entry_ok_storeContent:
  "entry_ok (localStorage s K) \<Longrightarrow> entry_ok (localStorage (storeContent t i s) K)"
  by (simp only: localStorage_storeContent entry_ok_update)

lemma entry_ok_saveModal:
  "entry_ok (localStorage s K) \<Longrightarrow> entry_ok (localStorage (saveModal s) K)"
  by (auto simp: saveModal_def Let_def entry_ok_storeContent split: option.splits list.splits)

lemma entry_ok_modal_onload:
  "entry_ok (localStorage s K) \<Longrightarrow> entry_ok (localStorage (modal_onload t d s) K)"
  by (simp add: modal_onload_def entry_ok_storeContent)

lemma entry_ok_storeContent_page:
  "entry_ok (localStorage s K) \<Longrightarrow> entry_ok (localStorage (settle (storeContent_page item i s)) K)"
  by (cases "item_text s")
     (simp_all add: storeContent_page_def settle_def entry_ok_def is_record_record_json)

lemma entry_ok_save_click:
  "entry_ok (localStorage s K) \<Longrightarrow> entry_ok (localStorage (settle (save_click item s)) K)"
proof (cases "\<exists>f fs. item_file s = Some (f # fs)")
  case True
  then show "entry_ok (localStorage s K) \<Longrightarrow> ?thesis"
    by (auto simp: save_click_def settle_def)
next
  case False
  then have "save_click item s = storeContent_page item (displayed_src (item_image s)) s"
    by (auto simp: save_click_def split: option.splits list.splits)
  then show "entry_ok (localStorage s K) \<Longrightarrow> ?thesis"
    by (simp add: entry_ok_storeContent_page)
qed

lemma entry_ok_page_onload:
  "entry_ok (localStorage s K) \<Longrightarrow> entry_ok (localStorage (settle (page_onload item d s)) K)"
  by (simp add: page_onload_def entry_ok_storeContent_page)

lemma entry_ok_fire:
  "entry_ok (localStorage s K) \<Longrightarrow> entry_ok (localStorage (fire r d s) K)"
  by (cases r) (simp_all add: fire_def entry_ok_modal_onload entry_ok_page_onload)

lemma localStorage_fill_text: "localStorage (settle (fill_text P obj s)) = localStorage s"
  by (simp add: fill_text_def settle_def split: option.splits sum.splits)

lemma localStorage_fill_image: "localStorage (settle (fill_image P obj s)) = localStorage s"
  by (simp add: fill_image_def settle_def split: option.splits sum.splits)

lemma localStorage_try_fill: "localStorage (settle (try_fill P stored s)) = localStorage s"
proof (cases "JSON_parse stored")
  case None
  then show ?thesis by (simp add: try_fill_def settle_def)
next
  case (Some obj)
  show ?thesis
  proof (cases "fill_text P obj s")
    case (Inl x)
    then show ?thesis
      using localStorage_fill_text [of P obj s] by (simp add: try_fill_def Some)
  next
    case (Inr s1)
    then have "localStorage s1 = localStorage s"
      using localStorage_fill_text [of P obj s] by (simp add: settle_def)
    then show ?thesis
      using localStorage_fill_image [of P obj s1] by (simp add: try_fill_def Some Inr)
  qed
qed

lemma localStorage_load_page: "localStorage (load_page P item s) = localStorage s"
proof -
  have "localStorage (case try_fill P stored s of
            Inl (e, s') \<Rightarrow> s'\<lparr>console := console s' @ [js ''Error parsing explanation data'']\<rparr>
          | Inr s' \<Rightarrow> s') = localStorage s" for stored
    using localStorage_try_fill [of P stored s]
    by (cases "try_fill P stored s") (auto simp: settle_def)
  then show ?thesis
    by (simp add: load_page_def split: option.splits)
qed

lemma localStorage_initExplanationPage: "localStorage (initExplanationPage P s) = localStorage s"
  by (simp add: initExplanationPage_def Let_def localStorage_load_page split: option.splits)

lemma entry_ok_listeners:
  "entry_ok (localStorage s K) \<Longrightarrow>
   entry_ok (localStorage (fold (\<lambda>item s'. settle (save_click item s')) ls s) K)"
  by (induction ls arbitrary: s) (simp_all add: entry_ok_save_click)

lemma entry_ok_step:
  assumes "entry_ok (localStorage s K)"
  shows "entry_ok (localStorage (step P e s) K)"
proof (cases e)
  case (Open key)
  then show ?thesis using assms by (simp add: localStorage_openModal)
next
  case Close
  then show ?thesis using assms by (simp add: localStorage_closeModal)
next
  case Save
  then show ?thesis using assms by (simp add: entry_ok_saveModal)
next
  case Expand
  then show ?thesis using assms by (simp add: localStorage_expandModal)
next
  case InitPage
  then show ?thesis
    using assms by (simp add: initPageScripts_def localStorage_initExplanationPage)
next
  case ClickSave
  then show ?thesis using assms by (simp add: entry_ok_listeners split: option.splits)
next
  case (Loaded n d)
  then show ?thesis using assms by (simp add: entry_ok_fire)
qed (use assms in simp_all)

lemma entry_ok_run:
  "entry_ok (localStorage s K) \<Longrightarrow> entry_ok (localStorage (run P es s) K)"
  by (induction es arbitrary: s) (simp_all add: entry_ok_step)

lemma localStorage_step:
  "\<not> saving e \<Longrightarrow> localStorage (step P e s) = localStorage s"
  by (cases e)
     (simp_all add: saving_def localStorage_openModal localStorage_closeModal
        localStorage_expandModal initPageScripts_def localStorage_initExplanationPage)

lemma localStorage_run:
  "\<forall>e \<in> set es. \<not> saving e \<Longrightarrow> localStorage (run P es s) = localStorage s"
  by (induction es arbitrary: s) (simp_all add: localStorage_step)


section \<open>The bound on nested calls never cuts a parse short\<close>

text \<open>
  Every successful parse consumes input, so a bound above twice the length of the
  text is never reached: with any larger bound the parser returns what it
  returns with the bound \<open>JSON_parse\<close> uses. \<open>None\<close> from \<open>JSON_parse\<close> is
  therefore always a syntax error of the text.
\<close>

lemma skip_ws_length: "length (skip_ws s) \<le> length s"
  by (simp add: skip_ws_def length_dropWhile_le)

lemma skip_ws_tail: "skip_ws s = c # cs \<Longrightarrow> length cs < length s"
  using skip_ws_length [of s] by simp

lemma consume_eq_Some:
  "consume c x = Some (t, r) \<longleftrightarrow> (\<exists>t'. x = Some (t', r) \<and> t = c # t')"
  by (cases x) (auto simp: consume_def)

lemma parse_chars_shorter: "parse_chars s = Some (t, r) \<Longrightarrow> length r < length s"
proof (induction s arbitrary: t rule: length_induct)
  case (1 xs)
  show ?case
  proof (cases xs)
    case Nil
    then show ?thesis using 1(2) by simp
  next
    case (Cons c cs)
    have ih: "\<And>ys t'. length ys < length xs \<Longrightarrow> parse_chars ys = Some (t', r) \<Longrightarrow> length r < length ys"
      using 1(1) by blast
    show ?thesis
      using 1(2) unfolding Cons
      by (auto simp: consume_eq_Some Cons split: if_splits list.splits option.splits dest!: ih [rotated])
  qed
qed

lemma take_digits_length: "take_digits s = (ds, r) \<Longrightarrow> length r \<le> length s"
  by (auto simp: take_digits_def length_dropWhile_le)

lemma parse_int_part_shorter: "parse_int_part s = Some (l, r) \<Longrightarrow> length r < length s"
  by (auto simp: parse_int_part_def Let_def le_imp_less_Suc
      split: list.splits if_splits prod.splits dest: take_digits_length)

lemma parse_frac_part_length: "parse_frac_part s = Some (l, r) \<Longrightarrow> length r \<le> length s"
  by (auto simp: parse_frac_part_def Let_def
      split: list.splits if_splits prod.splits dest: take_digits_length)

lemma parse_exp_digits_length: "parse_exp_digits p s = Some (l, r) \<Longrightarrow> length r \<le> length s"
  by (auto simp: parse_exp_digits_def Let_def split: if_splits prod.splits dest: take_digits_length)

lemma parse_exp_part_length: "parse_exp_part s = Some (l, r) \<Longrightarrow> length r \<le> length s"
  by (auto simp: parse_exp_part_def split: list.splits if_splits dest: parse_exp_digits_length)

lemma parse_number_shorter: "parse_number s = Some (l, r) \<Longrightarrow> length r < length s"
proof -
  assume a: "parse_number s = Some (l, r)"
  obtain sign s1 where s1: "(case s of [] \<Rightarrow> ([], s) | c # cs \<Rightarrow> if c = 0x2D then ([c], cs) else ([], s)) = (sign, s1)"
    by (cases "(case s of [] \<Rightarrow> ([], s) | c # cs \<Rightarrow> if c = 0x2D then ([c], cs) else ([], s))") auto
  then have l1: "length s1 \<le> length s"
    by (auto split: list.splits if_splits)
  from a s1 obtain ip s2 fp s3 ep where
    "parse_int_part s1 = Some (ip, s2)" "parse_frac_part s2 = Some (fp, s3)"
    "parse_exp_part s3 = Some (ep, r)"
    by (auto simp: parse_number_def split: option.splits prod.splits)
  then have "length s2 < length s1" "length s3 \<le> length s2" "length r \<le> length s3"
    by (simp_all add: parse_int_part_shorter parse_frac_part_length parse_exp_part_length)
  then show ?thesis
    using l1 by linarith
qed

lemma strip_prefix_shorter: "strip_prefix p s = Some r \<Longrightarrow> p \<noteq> [] \<Longrightarrow> length r < length s"
proof -
  assume a: "strip_prefix p s = Some r" and p: "p \<noteq> []"
  then have t: "take (length p) s = p" and r: "r = drop (length p) s"
    by (auto simp: strip_prefix_def split: if_splits)
  have "length (take (length p) s) \<le> length s" by simp
  then have "length p \<le> length s" by (simp only: t)
  then show ?thesis using r p by (cases p) auto
qed

lemma js_literals_nonempty: "js ''true'' \<noteq> []" "js ''false'' \<noteq> []" "js ''null'' \<noteq> []"
  by (simp_all add: js_def)

lemma parse_shorter:
  "(\<forall>s v r. parse_value n s = Some (v, r) \<longrightarrow> length r < length s) \<and>
   (\<forall>s vs r. parse_elements n s = Some (vs, r) \<longrightarrow> length r < length s) \<and>
   (\<forall>s ms r. parse_members n s = Some (ms, r) \<longrightarrow> length r < length s)"
proof (induction n)
  case 0
  show ?case by simp
next
  case (Suc n)
  have ihv: "\<And>s v r. parse_value n s = Some (v, r) \<Longrightarrow> length r < length s"
    and ihe: "\<And>s vs r. parse_elements n s = Some (vs, r) \<Longrightarrow> length r < length s"
    and ihm: "\<And>s ms r. parse_members n s = Some (ms, r) \<Longrightarrow> length r < length s"
    using Suc by blast+
  have v: "length r < length s" if a: "parse_value (Suc n) s = Some (v, r)" for s v r
  proof (cases "skip_ws s")
    case Nil
    then show ?thesis using a by simp
  next
    case (Cons c cs)
    have cs: "length cs < length s" using Cons by (rule skip_ws_tail)
    have ccs: "length (c # cs) \<le> length s" using cs by simp
    consider (obj) "c = 0x7B" | (arr) "c = 0x5B" | (str) "c = 0x22" | (tr) "c = 0x74"
      | (fa) "c = 0x66" | (nu) "c = 0x6E"
      | (num) "c \<noteq> 0x7B" "c \<noteq> 0x5B" "c \<noteq> 0x22" "c \<noteq> 0x74" "c \<noteq> 0x66" "c \<noteq> 0x6E"
      by blast
    then show ?thesis
    proof cases
      case obj
      show ?thesis
      proof (cases "skip_ws cs")
        case Nil
        then show ?thesis using a Cons obj by simp
      next
        case (Cons d ds)
        have "length ds < length cs" using Cons by (rule skip_ws_tail)
        then show ?thesis
          using a \<open>skip_ws s = c # cs\<close> obj Cons cs
          by (auto split: if_splits dest!: ihm)
      qed
    next
      case arr
      show ?thesis
      proof (cases "skip_ws cs")
        case Nil
        then show ?thesis using a Cons arr by simp
      next
        case (Cons d ds)
        have "length ds < length cs" using Cons by (rule skip_ws_tail)
        then show ?thesis
          using a \<open>skip_ws s = c # cs\<close> arr Cons cs
          by (auto split: if_splits dest!: ihe)
      qed
    next
      case str
      then show ?thesis
        using a Cons cs by (auto dest!: parse_chars_shorter)
    next
      case tr
      then show ?thesis
        using a Cons ccs strip_prefix_shorter [of "js ''true''" "c # cs"]
        by (auto simp: js_literals_nonempty)
    next
      case fa
      then show ?thesis
        using a Cons ccs strip_prefix_shorter [of "js ''false''" "c # cs"]
        by (auto simp: js_literals_nonempty)
    next
      case nu
      then show ?thesis
        using a Cons ccs strip_prefix_shorter [of "js ''null''" "c # cs"]
        by (auto simp: js_literals_nonempty)
    next
      case num
      then show ?thesis
        using a Cons ccs parse_number_shorter [of "c # cs"]
        by auto
    qed
  qed
  have e: "length r < length s" if a: "parse_elements (Suc n) s = Some (vs, r)" for s vs r
  proof -
    from a obtain v r1 where v1: "parse_value n s = Some (v, r1)"
      by (auto split: option.splits)
    then have l1: "length r1 < length s" by (rule ihv)
    from a v1 obtain c cs where c: "skip_ws r1 = c # cs"
      by (cases "skip_ws r1") auto
    then have l2: "length cs < length r1" by (rule skip_ws_tail)
    show ?thesis
      using a v1 c l1 l2 by (auto split: if_splits dest!: ihe)
  qed
  have m: "length r < length s" if a: "parse_members (Suc n) s = Some (ms, r)" for s ms r
  proof -
    from a obtain q cs where q: "skip_ws s = q # cs"
      by (cases "skip_ws s") auto
    then have l0: "length cs < length s" by (rule skip_ws_tail)
    from a q obtain k r0 where k: "parse_chars cs = Some (k, r0)"
      by (auto split: if_splits option.splits)
    then have l1: "length r0 < length cs" by (rule parse_chars_shorter)
    from a q k obtain c r1 where c: "skip_ws r0 = c # r1"
      by (cases "skip_ws r0") (auto split: if_splits)
    then have l2: "length r1 < length r0" by (rule skip_ws_tail)
    from a q k c obtain v r2 where v2: "parse_value n r1 = Some (v, r2)"
      by (auto split: if_splits option.splits)
    then have l3: "length r2 < length r1" by (rule ihv)
    from a q k c v2 obtain e r3 where e: "skip_ws r2 = e # r3"
      by (cases "skip_ws r2") (auto split: if_splits)
    then have l4: "length r3 < length r2" by (rule skip_ws_tail)
    show ?thesis
      using a q k c v2 e l0 l1 l2 l3 l4 by (auto split: if_splits dest!: ihm)
  qed
  show ?case using v e m by blast
qed

lemmas parse_value_shorter = parse_shorter [THEN conjunct1, rule_format]

lemma parse_fuel:
  "(\<forall>s. 2 * length s < n \<longrightarrow> parse_value (n + k) s = parse_value n s) \<and>
   (\<forall>s. 2 * length s + 1 < n \<longrightarrow> parse_elements (n + k) s = parse_elements n s) \<and>
   (\<forall>s. 2 * length s + 1 < n \<longrightarrow> parse_members (n + k) s = parse_members n s)"
proof (induction n)
  case 0
  show ?case by simp
next
  case (Suc n)
  have ihv: "\<And>s. 2 * length s < n \<Longrightarrow> parse_value (n + k) s = parse_value n s"
    and ihe: "\<And>s. 2 * length s + 1 < n \<Longrightarrow> parse_elements (n + k) s = parse_elements n s"
    and ihm: "\<And>s. 2 * length s + 1 < n \<Longrightarrow> parse_members (n + k) s = parse_members n s"
    using Suc by blast+
  have v: "parse_value (Suc n + k) s = parse_value (Suc n) s" if b: "2 * length s < Suc n" for s
  proof (cases "skip_ws s")
    case Nil
    then show ?thesis by simp
  next
    case (Cons c cs)
    have "length cs < length s" using Cons by (rule skip_ws_tail)
    then have "2 * length cs + 1 < n" using b by linarith
    then have "parse_members (n + k) cs = parse_members n cs"
      and "parse_elements (n + k) cs = parse_elements n cs"
      by (simp_all add: ihm ihe)
    then show ?thesis by (simp add: Cons cong: if_cong list.case_cong)
  qed
  have e: "parse_elements (Suc n + k) s = parse_elements (Suc n) s"
    if b: "2 * length s + 1 < Suc n" for s
  proof -
    have pv: "parse_value (n + k) s = parse_value n s"
      using b by (simp add: ihv)
    show ?thesis
    proof (cases "parse_value n s")
      case None
      then show ?thesis using pv by simp
    next
      case (Some p)
      obtain v r where p: "p = (v, r)" by (cases p)
      have l1: "length r < length s"
        using Some p parse_value_shorter by blast
      show ?thesis
      proof (cases "skip_ws r")
        case Nil
        then show ?thesis using pv Some p by simp
      next
        case (Cons c cs)
        have "length cs < length r" using Cons by (rule skip_ws_tail)
        then have "2 * length cs + 1 < n" using b l1 by linarith
        then have "parse_elements (n + k) cs = parse_elements n cs"
          by (rule ihe)
        then show ?thesis using pv Some p Cons by (simp cong: if_cong)
      qed
    qed
  qed
  have m: "parse_members (Suc n + k) s = parse_members (Suc n) s"
    if b: "2 * length s + 1 < Suc n" for s
  proof (cases "skip_ws s")
    case Nil
    then show ?thesis by simp
  next
    case q: (Cons q cs)
    have l0: "length cs < length s" using q by (rule skip_ws_tail)
    show ?thesis
    proof (cases "parse_chars cs")
      case None
      then show ?thesis using q by simp
    next
      case (Some p)
      obtain key r0 where p: "p = (key, r0)" by (cases p)
      have l1: "length r0 < length cs"
        using Some p parse_chars_shorter by blast
      show ?thesis
      proof (cases "skip_ws r0")
        case Nil
        then show ?thesis using q Some p by simp
      next
        case c: (Cons c r1)
        have l2: "length r1 < length r0" using c by (rule skip_ws_tail)
        have pv: "parse_value (n + k) r1 = parse_value n r1"
          using b l0 l1 l2 by (intro ihv) linarith
        show ?thesis
        proof (cases "parse_value n r1")
          case None
          then show ?thesis using q Some p c pv by simp
        next
          case v: (Some p2)
          obtain v r2 where p2: "p2 = (v, r2)" by (cases p2)
          have l3: "length r2 < length r1"
            using v p2 parse_value_shorter by blast
          show ?thesis
          proof (cases "skip_ws r2")
            case Nil
            then show ?thesis using q Some p c pv v p2 by simp
          next
            case e: (Cons e r3)
            have l4: "length r3 < length r2" using e by (rule skip_ws_tail)
            have "parse_members (n + k) r3 = parse_members n r3"
              using b l0 l1 l2 l3 l4 by (intro ihm) linarith
            then show ?thesis using q Some p c pv v p2 e by (simp cong: if_cong)
          qed
        qed
      qed
    qed
  qed
  show ?case using v e m by blast
qed

lemma parse_value_fuel:
  assumes "2 * length s < n"
  shows "parse_value n s = parse_value (Suc (2 * length s)) s"
proof -
  have "parse_value (Suc (2 * length s) + (n - Suc (2 * length s))) s
          = parse_value (Suc (2 * length s)) s"
    using parse_fuel [of "Suc (2 * length s)" "n - Suc (2 * length s)"] by simp
  moreover have "Suc (2 * length s) + (n - Suc (2 * length s)) = n"
    using assms by simp
  ultimately show ?thesis by simp
qed

section \<open>The record a load yields\<close>

lemma getProperty_record:
  "getProperty (JObj [(js ''text'', JStr t), (js ''image'', JStr i)]) (js ''text'') = Inr (JStr t)"
  "getProperty (JObj [(js ''text'', JStr t), (js ''image'', JStr i)]) (js ''image'') = Inr (JStr i)"
  by (simp_all add: text_neq_image)

lemma show_preview_JStr:
  "show_preview P (JStr i) img =
     Inr (if i \<noteq> [] then img\<lparr>src := i, display := js ''block''\<rparr> else img\<lparr>display := js ''none''\<rparr>)"
  by (simp add: show_preview_def)

lemma try_fill_record: "\<exists>s'. try_fill P (record_json t i) s = Inr s'"
  by (simp add: try_fill_def JSON_parse_record fill_text_def fill_image_def getProperty_record
      or_empty_JStr show_preview_JStr del: getProperty.simps split: option.splits)

lemma console_load_entry_ok:
  assumes "entry_ok (localStorage s (storage_key key))"
  shows "snd (load P key s) = s"
proof (cases "localStorage s (storage_key key)")
  case None
  then show ?thesis by (simp add: load_absent)
next
  case (Some v)
  then have "is_record v" using assms by (simp add: entry_ok_def)
  then obtain t i where "v = record_json t i" by (rule is_recordE)
  then show ?thesis using Some by (simp add: load_record)
qed

lemma console_load_page_entry_ok:
  assumes "entry_ok (localStorage s (storage_key key))"
  shows "console (load_page P key s) = console s"
proof (cases "localStorage s (storage_key key)")
  case None
  then show ?thesis by (simp add: load_page_def)
next
  case (Some v)
  then have "is_record v" using assms by (simp add: entry_ok_def)
  then obtain t i where v: "v = record_json t i" by (rule is_recordE)
  obtain s' where s': "try_fill P (record_json t i) s = Inr s'"
    using try_fill_record by blast
  have "console s' = console s"
    using s'
    by (auto simp: try_fill_def JSON_parse_record fill_text_def fill_image_def getProperty_record
      or_empty_JStr show_preview_JStr simp del: getProperty.simps split: option.splits)
  then show ?thesis
    using Some by (simp add: load_page_def v s' record_json_not_empty)
qed


lemma load_currentItemKey:
  "load P key (s\<lparr>currentItemKey := k\<rparr>) =
     (fst (load P key s), (snd (load P key s))\<lparr>currentItemKey := k\<rparr>)"
  by (simp add: load_def split: option.splits sum.splits prod.splits)

lemma modal_load: "modal (snd (load P key s)) = modal s"
  by (simp add: load_def split: option.splits sum.splits prod.splits)


lemma openModal_no_modal:
  "modal s = None \<Longrightarrow> openModal P key s = Inr (s\<lparr>currentItemKey := Some key\<rparr>)"
  by (simp add: openModal_def Let_def)





section \<open>Saving, step by step\<close>


lemma length_replace_word_starts: "length (replace_word_starts prev xs) = length xs"
  by (induction xs arbitrary: prev) simp_all

lemma nth_replace_word_starts:
  "n < length xs \<Longrightarrow>
   replace_word_starts prev xs ! n =
     (if is_word (xs ! n) \<and> \<not> (if n = 0 then prev else is_word (xs ! (n - 1)))
      then toUpperCase (xs ! n) else xs ! n)"
proof (induction xs arbitrary: prev n)
  case Nil
  then show ?case by simp
next
  case (Cons c cs)
  show ?case
  proof (cases n)
    case 0
    then show ?thesis by simp
  next
    case (Suc k)
    then have "k < length cs" using Cons.prems by simp
    then show ?thesis
      using Cons.IH [of k "is_word c"] Suc by (cases k) simp_all
  qed
qed

lemma is_word_hyphen_space: "\<not> is_word 0x2D" "\<not> is_word 0x20"
  by (simp_all add: is_word_def)

lemma nth_format_heading:
  assumes "n < length item"
  shows "format_heading item ! n =
     (if item ! n = 0x2D then 0x20
      else if is_word (item ! n) \<and> (n = 0 \<or> \<not> is_word (item ! (n - 1)))
      then toUpperCase (item ! n) else item ! n)"
proof -
  let ?r = "replace_hyphens item"
  have len: "n < length ?r" using assms by (simp add: replace_hyphens_def)
  have cur: "?r ! n = (if item ! n = 0x2D then 0x20 else item ! n)"
    using assms by (simp add: replace_hyphens_def)
  have w: "is_word (?r ! k) = is_word (item ! k)" if "k < length item" for k
    using that by (simp add: replace_hyphens_def is_word_hyphen_space)
  have pw: "n \<noteq> 0 \<Longrightarrow> is_word (?r ! (n - 1)) = is_word (item ! (n - 1))"
    using assms by (intro w) simp
  show ?thesis
    unfolding format_heading_def nth_replace_word_starts [OF len]
    using cur pw w [OF assms] is_word_hyphen_space by auto
qed

lemma saveModal_no_file:
  assumes "modal s = Some m" and "currentItemKey s = Some k" and "k \<noteq> []"
    and "file_input m = None \<or> file_input m = Some []"
  shows "saveModal s = storeContent (textarea_value m) (displayed_src (image_preview m)) s"
  using assms by (auto simp: saveModal_def Let_def)

lemma saveModal_file:
  assumes "modal s = Some m" and "currentItemKey s = Some k" and "k \<noteq> []"
    and "file_input m = Some (f # fs)"
  shows "saveModal s = s\<lparr>readers := readers s @ [(ModalReader (textarea_value m), f)]\<rparr>"
  using assms by (simp add: saveModal_def Let_def)

lemma storeContent_entry:
  "currentItemKey s = Some k \<Longrightarrow>
   localStorage (storeContent t i s) (storage_key k) = Some (record_json t i)"
  by (simp add: localStorage_storeContent key_text_def storage_key_def)

lemma modal_onload_entry:
  "currentItemKey s = Some k \<Longrightarrow>
   localStorage (modal_onload t d s) (storage_key k) = Some (record_json t d)"
  by (simp add: modal_onload_def storeContent_entry)

lemma remove_nth_last: "remove_nth (length xs) (xs @ [x]) = xs"
  by (simp add: remove_nth_def)

lemma step_Loaded_last:
  "step P (Loaded (length (readers s)) d) (s\<lparr>readers := readers s @ [(r, f)]\<rparr>) = fire r d s"
  by (simp add: remove_nth_last nth_append)

lemma run_Save_Loaded:
  assumes "modal s = Some m" and "currentItemKey s = Some k" and "k \<noteq> []"
    and "file_input m = Some (f # fs)"
  shows "run P [Save, Loaded (length (readers s)) d] s = modal_onload (textarea_value m) d s"
  using step_Loaded_last [of P s d "ModalReader (textarea_value m)" f]
  by (simp add: saveModal_file [OF assms] fire_def)

lemma save_click_no_file:
  assumes "item_text s = Some t" and "item_file s = None \<or> item_file s = Some []"
  shows "save_click k s =
           Inr (s\<lparr>localStorage :=
                    (localStorage s)(storage_key k \<mapsto> record_json t (displayed_src (item_image s))),
                  alerts := alerts s @ [js ''Saved successfully'']\<rparr>)"
  using assms by (auto simp: save_click_def storeContent_page_def)

lemma save_click_file:
  assumes "item_file s = Some (f # fs)"
  shows "save_click k s = Inr (s\<lparr>readers := readers s @ [(PageReader k, f)]\<rparr>)"
  using assms by (simp add: save_click_def)

lemma page_onload_text:
  assumes "item_text s = Some t"
  shows "page_onload k d s =
           Inr (s\<lparr>item_image := map_option (show_data d) (item_image s),
                  localStorage := (localStorage s)(storage_key k \<mapsto> record_json t d),
                  alerts := alerts s @ [js ''Saved successfully'']\<rparr>)"
  using assms by (simp add: page_onload_def storeContent_page_def)

lemma load_entry:
  "localStorage s (storage_key k) = Some (record_json t i) \<Longrightarrow>
   fst (load P k s) = (JStr t, JStr i)"
  by (simp add: load_record)

lemma cash_not_empty: "js ''cash'' \<noteq> []"
  by (simp add: js_def)

lemma displayed_old_image: "displayed_src (Some old_image) = js ''data:old''"
  by (simp add: displayed_src_def old_image_def js_def)

lemma editing_facts:
  "modal editing_page = Some editing_modal" "currentItemKey editing_page = Some (js ''cash'')"
  "file_input editing_modal = Some []" "textarea_value editing_modal = js ''note''"
  "displayed_src (image_preview editing_modal) = js ''data:old''"
  "image_preview editing_modal = Some old_image" "display old_image \<noteq> js ''none''"
  "src old_image = js ''data:old''"
  by (simp_all add: editing_page_def editing_modal_def blank_page_def textarea_value_def
      displayed_src_def old_image_def js_def)

lemma chosen_facts:
  "modal chosen_page = Some chosen_modal" "currentItemKey chosen_page = Some (js ''cash'')"
  "file_input chosen_modal = Some [File 1]" "textarea_value chosen_modal = js ''note''"
  "readers chosen_page = []"
  by (simp_all add: chosen_page_def chosen_modal_def editing_modal_def blank_page_def
      textarea_value_def)

lemma editor_facts:
  "item_text typed_editor = Some (js ''note'')" "item_file typed_editor = Some []"
  "displayed_src (item_image typed_editor) = js ''data:old''"
  "item_image typed_editor = Some old_image"
  "item_text chosen_editor = Some (js ''note'')" "item_file chosen_editor = Some [File 1]"
  by (simp_all add: typed_editor_def chosen_editor_def editor_page_def blank_page_def
      displayed_src_def old_image_def js_def)

section \<open>The claims\<close>

subsection \<open>C1: saving, then loading\<close>

text \<open>
  C1 says that for every key \<open>k\<close>, text \<open>t\<close> and optional image, a save followed
  by a load of \<open>k\<close> yields the text \<open>t\<close> and the encoded image, and no image when
  none was supplied. The script decides two things differently, both on purpose.
  Without a new file it stores the image the preview displays, so the loaded record
  has that image. And both editors treat the empty key as no key: \<^verbatim>\<open>saveModal\<close>
  returns at once when \<^verbatim>\<open>currentItemKey\<close> is empty, and
  \<^verbatim>\<open>initExplanationPage\<close> returns before it installs the save listener.

  C1 as amended: for every non-empty key \<open>k\<close> and every text \<open>t\<close> (the empty text
  included), a save for \<open>k\<close> that completes while \<open>k\<close> is the current item, followed
  by a load of \<open>k\<close>, yields the text \<open>t\<close> and an image which is the data URL of the
  newly chosen file when one was chosen, and otherwise the image the preview
  displays (no image when the preview is hidden, absent or has an empty source).
  In the popup \<open>t\<close> is the content of the text area, or empty without one; the
  full page needs its text area. The save with a file is the Save event followed
  by the completion of the read it started; the last conjunct is that completion
  at any later moment at which \<open>k\<close> is still the current item.
\<close>

theorem save_then_load_round_trip:
  "(modal s = Some m \<and> currentItemKey s = Some k \<and> k \<noteq> [] \<longrightarrow>
      (\<forall>f fs d. file_input m = Some (f # fs) \<longrightarrow>
         fst (load P k (run P [Save, Loaded (length (readers s)) d] s)) =
           (JStr (textarea_value m), JStr d)) \<and>
      (file_input m = None \<or> file_input m = Some [] \<longrightarrow>
         fst (load P k (saveModal s)) =
           (JStr (textarea_value m), JStr (displayed_src (image_preview m))))) \<and>
   (item_text s = Some t \<longrightarrow>
      (\<forall>f fs d. item_file s = Some (f # fs) \<longrightarrow>
         (\<exists>s1 s2. save_click k s = Inr s1 \<and> page_onload k d s1 = Inr s2 \<and>
            fst (load P k s2) = (JStr t, JStr d))) \<and>
      (item_file s = None \<or> item_file s = Some [] \<longrightarrow>
         (\<exists>s1. save_click k s = Inr s1 \<and>
            fst (load P k s1) = (JStr t, JStr (displayed_src (item_image s)))))) \<and>
   (currentItemKey p = Some k \<longrightarrow>
      fst (load P k (modal_onload text dataURL p)) = (JStr text, JStr dataURL))"
proof -
  have late: "fst (load P k (modal_onload text dataURL p)) = (JStr text, JStr dataURL)"
    if "currentItemKey p = Some k"
    using that by (intro load_entry) (simp add: modal_onload_entry)
  have popup_file: "fst (load P k (run P [Save, Loaded (length (readers s)) d] s)) =
           (JStr (textarea_value m), JStr d)"
    if "modal s = Some m" "currentItemKey s = Some k" "k \<noteq> []" "file_input m = Some (f # fs)"
    for f fs d
    using that(2) by (intro load_entry) (simp only: run_Save_Loaded [OF that] modal_onload_entry)
  have popup_none: "fst (load P k (saveModal s)) =
           (JStr (textarea_value m), JStr (displayed_src (image_preview m)))"
    if "modal s = Some m" "currentItemKey s = Some k" "k \<noteq> []"
      "file_input m = None \<or> file_input m = Some []"
    using that(2) by (intro load_entry) (simp add: saveModal_no_file [OF that] storeContent_entry)
  have page_file: "\<exists>s1 s2. save_click k s = Inr s1 \<and> page_onload k d s1 = Inr s2 \<and>
            fst (load P k s2) = (JStr t, JStr d)"
    if "item_text s = Some t" "item_file s = Some (f # fs)" for f fs d
    using that by (simp add: save_click_file page_onload_text load_entry)
  have page_none: "\<exists>s1. save_click k s = Inr s1 \<and>
            fst (load P k s1) = (JStr t, JStr (displayed_src (item_image s)))"
    if "item_text s = Some t" "item_file s = None \<or> item_file s = Some []"
    using that by (simp add: save_click_no_file load_entry)
  show ?thesis
    using popup_file popup_none page_file page_none late by blast
qed

text \<open>
  C1 as stated fails: with nothing chosen and an old image on display the loaded
  record carries the old image; and with the empty key the save writes nothing, so
  the load yields the empty text although the text area held a note.
\<close>

theorem save_then_load_round_trip_counterexample:
  "fst (load example_platform (js ''cash'') (saveModal editing_page)) =
     (JStr (js ''note''), JStr (js ''data:old'')) \<and>
   js ''data:old'' \<noteq> [] \<and>
   file_input editing_modal = Some [] \<and>
   saveModal empty_key_page = empty_key_page \<and>
   textarea_value editing_modal = js ''note'' \<and>
   fst (load example_platform [] (saveModal empty_key_page)) = (JStr [], JStr []) \<and>
   js ''note'' \<noteq> []"
proof -
  have a: "fst (load example_platform (js ''cash'') (saveModal editing_page)) =
     (JStr (js ''note''), JStr (js ''data:old''))"
    by (rule load_entry)
       (simp add: saveModal_no_file [OF editing_facts(1) editing_facts(2) cash_not_empty]
          editing_facts storeContent_entry displayed_old_image)
  have b: "saveModal empty_key_page = empty_key_page"
    by (simp add: saveModal_def empty_key_page_def)
  have c: "fst (load example_platform [] empty_key_page) = (JStr [], JStr [])"
    by (simp add: load_def empty_key_page_def blank_page_def)
  have d: "js ''data:old'' \<noteq> []" "js ''note'' \<noteq> []"
    by (simp_all add: js_def)
  show ?thesis
    using a b c d editing_facts(3,4) by simp
qed

text \<open>The four cases of the amended claim, on pages in the middle of a session.\<close>

theorem save_then_load_round_trip_witness:
  "modal editing_page = Some editing_modal \<and> currentItemKey editing_page = Some (js ''cash'') \<and>
   js ''cash'' \<noteq> [] \<and> file_input editing_modal = Some [] \<and>
   fst (load example_platform (js ''cash'') (saveModal editing_page)) =
     (JStr (js ''note''), JStr (js ''data:old'')) \<and>
   modal chosen_page = Some chosen_modal \<and> file_input chosen_modal = Some [File 1] \<and>
   fst (load example_platform (js ''cash'')
      (run example_platform [Save, Loaded 0 (js ''data:new'')] chosen_page)) =
     (JStr (js ''note''), JStr (js ''data:new'')) \<and>
   item_text typed_editor = Some (js ''note'') \<and> item_file typed_editor = Some [] \<and>
   (\<exists>s1. save_click (js ''cash'') typed_editor = Inr s1 \<and>
      fst (load example_platform (js ''cash'') s1) = (JStr (js ''note''), JStr (js ''data:old''))) \<and>
   item_file chosen_editor = Some [File 1] \<and>
   (\<exists>s1 s2. save_click (js ''cash'') chosen_editor = Inr s1 \<and>
      page_onload (js ''cash'') (js ''data:new'') s1 = Inr s2 \<and>
      fst (load example_platform (js ''cash'') s2) = (JStr (js ''note''), JStr (js ''data:new'')))"
proof -
  note p1 = save_then_load_round_trip [of editing_page editing_modal "js ''cash''" example_platform
      "js ''note''", THEN conjunct1, rule_format, THEN conjunct2, rule_format]
  have a: "fst (load example_platform (js ''cash'') (saveModal editing_page)) =
     (JStr (js ''note''), JStr (js ''data:old''))"
    using p1 by (simp add: editing_facts cash_not_empty displayed_old_image)
  note p2 = save_then_load_round_trip [of chosen_page chosen_modal "js ''cash''" example_platform
      "js ''note''", THEN conjunct1, rule_format, THEN conjunct1, rule_format]
  have b: "fst (load example_platform (js ''cash'')
      (run example_platform [Save, Loaded 0 (js ''data:new'')] chosen_page)) =
     (JStr (js ''note''), JStr (js ''data:new''))"
    using p2 [of "File 1" "[]" "js ''data:new''"]
    by (simp add: chosen_facts cash_not_empty del: run.simps)
  note p3 = save_then_load_round_trip [of typed_editor undefined "js ''cash''" example_platform
      "js ''note''", THEN conjunct2, THEN conjunct1, rule_format, THEN conjunct2, rule_format]
  have c: "\<exists>s1. save_click (js ''cash'') typed_editor = Inr s1 \<and>
      fst (load example_platform (js ''cash'') s1) = (JStr (js ''note''), JStr (js ''data:old''))"
    using p3 by (simp add: editor_facts displayed_old_image)
  note p4 = save_then_load_round_trip [of chosen_editor undefined "js ''cash''" example_platform
      "js ''note''", THEN conjunct2, THEN conjunct1, rule_format, THEN conjunct1, rule_format]
  have d: "\<exists>s1 s2. save_click (js ''cash'') chosen_editor = Inr s1 \<and>
      page_onload (js ''cash'') (js ''data:new'') s1 = Inr s2 \<and>
      fst (load example_platform (js ''cash'') s2) = (JStr (js ''note''), JStr (js ''data:new''))"
    using p4 [of "File 1" "[]" "js ''data:new''"] by (simp add: editor_facts)
  show ?thesis
    using a b c d editing_facts(1,2,3) chosen_facts(1,3) editor_facts(1,2,6) cash_not_empty
    by (intro conjI) assumption+
qed

subsection \<open>C2: which image a save persists\<close>



subsection \<open>C3: loading what is absent or unparseable\<close>



subsection \<open>C4: the key a save writes under\<close>

text \<open>
  C4 says that every save writes one JSON object with the string fields
  \<^verbatim>\<open>text\<close> and \<^verbatim>\<open>image\<close> under the key of its item. The popup's
  \<^verbatim>\<open>storeContent\<close> reads \<^verbatim>\<open>currentItemKey\<close> when it runs, which for a save with
  a chosen file is when the read completes. On the page below the item
  \<^verbatim>\<open>cash\<close> is open with a note and a chosen file. Save starts the read, the
  visitor closes the popup, the read completes: the record is written under
  \<^verbatim>\<open>explanation_null\<close> and the entry of \<^verbatim>\<open>cash\<close> stays absent. The full page's
  \<^verbatim>\<open>storeContent\<close> closes over its item and is not affected.
\<close>

theorem save_interrupted_by_close:
  "currentItemKey chosen_page = Some (js ''cash'') \<and>
   textarea_value chosen_modal = js ''note'' \<and>
   localStorage chosen_page = Map.empty \<and>
   localStorage (run example_platform [Save, Close, Loaded 0 (js ''data:new'')] chosen_page)
      (storage_key (js ''cash'')) = None \<and>
   localStorage (run example_platform [Save, Close, Loaded 0 (js ''data:new'')] chosen_page)
      (js ''explanation_null'') = Some (record_json (js ''note'') (js ''data:new''))"
proof -
  have s: "saveModal chosen_page =
      chosen_page\<lparr>readers := [(ModalReader (js ''note''), File 1)]\<rparr>"
    using saveModal_file [OF chosen_facts(1) chosen_facts(2) cash_not_empty chosen_facts(3)]
    by (simp add: chosen_facts)
  have r: "run example_platform [Save, Close, Loaded 0 (js ''data:new'')] chosen_page =
      modal_onload (js ''note'') (js ''data:new'') ((closeModal chosen_page)\<lparr>readers := []\<rparr>)"
    by (simp add: s closeModal_def remove_nth_def fire_def)
  have k: "currentItemKey (closeModal chosen_page) = None"
    by (simp add: closeModal_def)
  have e: "localStorage (closeModal chosen_page) = Map.empty"
    by (simp add: closeModal_def chosen_page_def blank_page_def)
  have n: "js ''explanation_'' @ js ''null'' = js ''explanation_null''"
    "js ''explanation_null'' \<noteq> storage_key (js ''cash'')"
    by (simp_all add: js_def storage_key_def)
  have st: "localStorage (run example_platform [Save, Close, Loaded 0 (js ''data:new'')] chosen_page) =
      [js ''explanation_null'' \<mapsto> record_json (js ''note'') (js ''data:new'')]"
    unfolding r modal_onload_def
    by (simp add: localStorage_storeContent k e key_text_def n)
  have o: "localStorage chosen_page = Map.empty"
    by (simp add: chosen_page_def blank_page_def)
  show ?thesis
    unfolding st using n(2) o chosen_facts(2,4) by simp
qed

subsection \<open>C5: the heading of the full page\<close>

text \<open>
  C5. On the full-page editor the heading is derived from the item of the query
  string: every hyphen becomes a space, and every word character that starts the
  identifier or follows a character that is not a word character is put in upper
  case (a word is a maximal run of letters, digits and underscores); nothing else
  changes. In particular \<^verbatim>\<open>variance-analysis\<close> gives \<^verbatim>\<open>Variance Analysis\<close>.
\<close>

theorem heading_derived_from_item:
  assumes "getQueryParam (js ''item'') s = Some item" and "item \<noteq> []"
    and "item_heading s = Some old"
  shows "item_heading (initExplanationPage P s) = Some (format_heading item) \<and>
         length (format_heading item) = length item \<and>
         (\<forall>n < length item.
            format_heading item ! n =
              (if item ! n = 0x2D then 0x20
               else if is_word (item ! n) \<and> (n = 0 \<or> \<not> is_word (item ! (n - 1)))
               then toUpperCase (item ! n) else item ! n)) \<and>
         format_heading (js ''variance-analysis'') = js ''Variance Analysis''"
proof -
  have "item_heading (load_page P item p) = item_heading p" for p
    by (auto simp: load_page_def try_fill_def fill_text_def fill_image_def
        split: option.splits sum.splits prod.splits)
  then have h: "item_heading (initExplanationPage P s) = Some (format_heading item)"
    using assms by (simp add: initExplanationPage_def Let_def)
  have l: "length (format_heading item) = length item"
    by (simp add: format_heading_def length_replace_word_starts replace_hyphens_def)
  have e: "format_heading (js ''variance-analysis'') = js ''Variance Analysis''"
    by (simp add: format_heading_def replace_hyphens_def is_word_def toUpperCase_def js_def)
  show ?thesis
    using h l e nth_format_heading by blast
qed

theorem heading_derived_from_item_witness:
  "getQueryParam (js ''item'') (editor_page (js ''variance-analysis'')) =
     Some (js ''variance-analysis'') \<and>
   js ''variance-analysis'' \<noteq> [] \<and>
   item_heading (editor_page (js ''variance-analysis'')) = Some [] \<and>
   item_heading (initExplanationPage example_platform (editor_page (js ''variance-analysis''))) =
     Some (js ''Variance Analysis'') \<and>
   item_text (initExplanationPage example_platform (editor_page (js ''variance-analysis''))) =
     Some [] \<and>
   (9::nat) < length (js ''variance-analysis'') \<and>
   format_heading (js ''variance-analysis'') ! 8 = 0x20 \<and>
   format_heading (js ''variance-analysis'') ! 9 = 0x41"
proof -
  have a: "getQueryParam (js ''item'') (editor_page (js ''variance-analysis'')) =
     Some (js ''variance-analysis'')"
    by (simp add: getQueryParam_def editor_page_def)
  have b: "js ''variance-analysis'' \<noteq> []" by (simp add: js_def)
  have c: "item_heading (editor_page (js ''variance-analysis'')) = Some []"
    by (simp add: editor_page_def)
  note t = heading_derived_from_item [OF a b c, of example_platform]
  have d: "item_heading (initExplanationPage example_platform (editor_page (js ''variance-analysis''))) =
     Some (js ''Variance Analysis'')"
    using t by simp
  have e: "item_text (initExplanationPage example_platform (editor_page (js ''variance-analysis''))) =
     Some []"
    by (simp add: initExplanationPage_def getQueryParam_def Let_def load_page_def storage_key_def
        editor_page_def blank_page_def js_def)
  have f: "(9::nat) < length (js ''variance-analysis'')" by (simp add: js_def)
  have g: "format_heading (js ''variance-analysis'') ! 8 = 0x20"
    "format_heading (js ''variance-analysis'') ! 9 = 0x41"
    using t by (simp_all add: js_def)
  show ?thesis
    using a b c d e f g by blast
qed

subsection \<open>C6: a page without the text area\<close>

text \<open>
  C6 says that whenever an expected element is missing every operation skips the
  step that needs it and never fails. The save listener of the full page reads
  \<^verbatim>\<open>textarea.value\<close> without testing \<^verbatim>\<open>textarea\<close>. On the page below, which has
  the heading and the Save button but no \<^verbatim>\<open>#item-text\<close>, the page initialises
  (the heading reads \<^verbatim>\<open>Cash\<close>, the listener is installed) and a click on Save throws
  \<^verbatim>\<open>TypeError\<close>: nothing is stored and no confirmation is shown. \<^verbatim>\<open>saveModal\<close>
  tests its text area and saves the empty text instead.
\<close>

theorem save_click_without_textarea_throws:
  "item_text page_without_textarea = None \<and>
   item_heading page_without_textarea = Some (js ''Cash'') \<and>
   save_explanation page_without_textarea = Some [js ''cash''] \<and>
   save_click (js ''cash'') page_without_textarea = Inl (TypeError, page_without_textarea) \<and>
   step example_platform ClickSave page_without_textarea = page_without_textarea \<and>
   localStorage page_without_textarea (storage_key (js ''cash'')) = None"
proof -
  have i: "page_without_textarea =
      (editor_page (js ''cash''))\<lparr>item_text := None, item_heading := Some (js ''Cash''),
         save_explanation := Some [js ''cash'']\<rparr>"
    by (simp add: page_without_textarea_def initExplanationPage_def getQueryParam_def
        editor_page_def blank_page_def load_page_def storage_key_def Let_def
        format_heading_def replace_hyphens_def is_word_def toUpperCase_def js_def)
  have c: "save_click (js ''cash'') page_without_textarea = Inl (TypeError, page_without_textarea)"
    by (simp add: i save_click_def storeContent_page_def editor_page_def blank_page_def)
  have sv: "save_explanation page_without_textarea = Some [js ''cash'']"
    by (simp add: i)
  have st: "step example_platform ClickSave page_without_textarea = page_without_textarea"
    by (simp add: sv c settle_def)
  have rest: "item_text page_without_textarea = None"
    "item_heading page_without_textarea = Some (js ''Cash'')"
    "localStorage page_without_textarea (storage_key (js ''cash'')) = None"
    by (simp_all add: i editor_page_def blank_page_def)
  show ?thesis
    using c sv st rest by blast
qed

subsection \<open>C7: opening the popup for another item\<close>



subsection \<open>C8: closing without saving\<close>

text \<open>
  C8. Opening an editor reads the store and writes nothing, closing writes
  nothing, and so does every sequence of events without a save (opening, typing,
  choosing files, expanding, closing, initialising the full page): the stored
  record of every key is afterwards exactly what it was.
\<close>

theorem closing_without_saving_keeps_storage:
  "localStorage (settle (openModal P k s)) = localStorage s \<and>
   localStorage (closeModal s) = localStorage s \<and>
   ((\<forall>e \<in> set es. \<not> saving e) \<longrightarrow> localStorage (run P es s) = localStorage s)"
  by (simp add: localStorage_openModal localStorage_closeModal localStorage_run)

theorem closing_without_saving_keeps_storage_witness:
  "localStorage
     (run example_platform
        [Open (js ''cash''), TypeText (js ''scribble''), ChooseFiles [File 7], Expand, Close]
        noted_page) = localStorage noted_page \<and>
   localStorage noted_page (storage_key (js ''cash'')) =
     Some (record_json (js ''Operating cash balance'') (js ''data:a''))"
proof -
  have "\<forall>e \<in> set [Open (js ''cash''), TypeText (js ''scribble''), ChooseFiles [File 7], Expand, Close].
          \<not> saving e"
    by (simp add: saving_def)
  then have "localStorage
     (run example_platform
        [Open (js ''cash''), TypeText (js ''scribble''), ChooseFiles [File 7], Expand, Close]
        noted_page) = localStorage noted_page"
    using closing_without_saving_keeps_storage [of example_platform "js ''cash''" noted_page
        "[Open (js ''cash''), TypeText (js ''scribble''), ChooseFiles [File 7], Expand, Close]"]
    by blast
  moreover have "localStorage noted_page (storage_key (js ''cash'')) =
     Some (record_json (js ''Operating cash balance'') (js ''data:a''))"
    by (simp add: noted_page_def storage_key_def js_def)
  ultimately show ?thesis ..
qed

subsection \<open>C9: the session key on a page without the popup\<close>

text \<open>
  C9 says that \<^verbatim>\<open>openModal(k)\<close> sets the session key to \<open>k\<close> before it looks for
  the popup, so that on a page without the popup the key still becomes \<open>k\<close>, nothing
  else changes, and a later \<^verbatim>\<open>expandModal\<close> opens the full-page editor for \<open>k\<close>.
  The last part fails for the empty key, which \<^verbatim>\<open>expandModal\<close> treats as no key.

  C9 as amended: for every key \<open>k\<close>, \<^verbatim>\<open>openModal(k)\<close> leaves the session key at
  \<open>k\<close>, also when it throws; on a page without the popup it changes nothing else;
  and when \<open>k\<close> is not empty a later \<^verbatim>\<open>expandModal\<close> opens
  \<^verbatim>\<open>explanation.html?item=\<close> followed by \<^verbatim>\<open>encodeURIComponent(k)\<close>, or throws
  \<^verbatim>\<open>URIError\<close> when the encoding does.
\<close>

theorem session_key_set_before_modal_check:
  "currentItemKey (settle (openModal P k s)) = Some k \<and>
   (modal s = None \<longrightarrow>
      openModal P k s = Inr (s\<lparr>currentItemKey := Some k\<rparr>) \<and>
      (k \<noteq> [] \<longrightarrow>
         expandModal P (s\<lparr>currentItemKey := Some k\<rparr>) =
           (case encodeURIComponent P k of
              None \<Rightarrow> Inl (URIError, s\<lparr>currentItemKey := Some k\<rparr>)
            | Some q \<Rightarrow>
                Inr (s\<lparr>currentItemKey := Some k,
                       opened := opened s @ [js ''explanation.html?item='' @ q]\<rparr>))))"
proof -
  have "currentItemKey (snd (load P k (s\<lparr>currentItemKey := Some k\<rparr>))) = Some k"
    by (simp add: load_currentItemKey)
  then have "currentItemKey (settle (openModal P k s)) = Some k"
    by (auto simp: openModal_def settle_def Let_def split: option.splits sum.splits prod.splits)
  then show ?thesis
    by (simp add: openModal_no_modal expandModal_def split: option.splits)
qed

text \<open>C9 as stated fails at the empty key: the key is set and nothing is opened.\<close>

theorem session_key_without_modal_counterexample:
  "modal blank_page = None \<and>
   openModal example_platform [] blank_page = Inr (blank_page\<lparr>currentItemKey := Some []\<rparr>) \<and>
   expandModal example_platform (blank_page\<lparr>currentItemKey := Some []\<rparr>) =
     Inr (blank_page\<lparr>currentItemKey := Some []\<rparr>) \<and>
   opened (blank_page\<lparr>currentItemKey := Some []\<rparr>) = []"
  by (simp add: openModal_def expandModal_def blank_page_def)

theorem session_key_set_before_modal_check_witness:
  "modal blank_page = None \<and> js ''cash'' \<noteq> [] \<and>
   openModal example_platform (js ''cash'') blank_page =
     Inr (blank_page\<lparr>currentItemKey := Some (js ''cash'')\<rparr>) \<and>
   expandModal example_platform (blank_page\<lparr>currentItemKey := Some (js ''cash'')\<rparr>) =
     Inr (blank_page\<lparr>currentItemKey := Some (js ''cash''),
            opened := [js ''explanation.html?item=cash'']\<rparr>)"
proof -
  have a: "modal blank_page = None" by (simp add: blank_page_def)
  have b: "js ''cash'' \<noteq> []" by (simp add: js_def)
  have c: "encodeURIComponent example_platform (js ''cash'') = Some (js ''cash'')"
    by (simp add: example_platform_def)
  have d: "opened blank_page = []" by (simp add: blank_page_def)
  have e: "js ''explanation.html?item='' @ js ''cash'' = js ''explanation.html?item=cash''"
    by (simp add: js_def)
  show ?thesis
    using a b session_key_set_before_modal_check [of example_platform "js ''cash''" blank_page]
    by (simp add: c d e)
qed

subsection \<open>C10: what the saves write always parses\<close>

text \<open>
  C10. Every value either save path ever writes to storage is the JSON
  serialisation of an object whose \<^verbatim>\<open>text\<close> and \<^verbatim>\<open>image\<close> fields are both
  strings, so a load of a key that only these saves have written never takes the
  parse-error branch. Stated over every sequence of events, in any interleaving:
  if the entry under a storage key is absent or a record before the events, it is
  absent or a record after them; the body of the \<^verbatim>\<open>try\<close> of either editor then
  ends without an exception on it, and loading that key logs nothing.
\<close>

theorem saved_values_always_parse:
  assumes "entry_ok (localStorage s K)"
  shows "entry_ok (localStorage (run P es s) K) \<and>
         (\<forall>v. localStorage (run P es s) K = Some v \<longrightarrow>
            \<not> isl (try_parse P v) \<and> (\<forall>p. \<not> isl (try_fill P v p))) \<and>
         (K = storage_key key \<longrightarrow>
            snd (load P key (run P es s)) = run P es s \<and>
            console (load_page P key (run P es s)) = console (run P es s))"
proof -
  have ok: "entry_ok (localStorage (run P es s) K)"
    using assms by (rule entry_ok_run)
  have "\<not> isl (try_parse P v) \<and> (\<forall>p. \<not> isl (try_fill P v p))"
    if "localStorage (run P es s) K = Some v" for v
  proof -
    have "is_record v" using ok that by (simp add: entry_ok_def)
    then obtain t i where "v = record_json t i" by (rule is_recordE)
    moreover have "\<not> isl (try_fill P (record_json t i) p)" for p
      using try_fill_record [of P t i p] by auto
    ultimately show ?thesis
      by (simp add: try_parse_record)
  qed
  then show ?thesis
    using ok by (auto simp: console_load_entry_ok console_load_page_entry_ok)
qed

theorem saved_values_always_parse_witness:
  "entry_ok (localStorage popup_page (storage_key (js ''cash''))) \<and>
   entry_ok (localStorage
       (run example_platform [Open (js ''cash''), TypeText (js ''note''), Save] popup_page)
       (storage_key (js ''cash''))) \<and>
   snd (load example_platform (js ''cash'')
         (run example_platform [Open (js ''cash''), TypeText (js ''note''), Save] popup_page)) =
      run example_platform [Open (js ''cash''), TypeText (js ''note''), Save] popup_page \<and>
   console (load_page example_platform (js ''cash'')
         (run example_platform [Open (js ''cash''), TypeText (js ''note''), Save] popup_page)) =
      console (run example_platform [Open (js ''cash''), TypeText (js ''note''), Save] popup_page)"
proof -
  have h: "entry_ok (localStorage popup_page (storage_key (js ''cash'')))"
    by (simp add: popup_page_def blank_page_def entry_ok_def)
  note t = saved_values_always_parse [OF h, where key = "js ''cash''" and P = example_platform
      and es = "[Open (js ''cash''), TypeText (js ''note''), Save]"]
  from t have a: "entry_ok (localStorage
       (run example_platform [Open (js ''cash''), TypeText (js ''note''), Save] popup_page)
       (storage_key (js ''cash'')))"
    by (rule conjunct1)
  from t have b: "snd (load example_platform (js ''cash'')
         (run example_platform [Open (js ''cash''), TypeText (js ''note''), Save] popup_page)) =
      run example_platform [Open (js ''cash''), TypeText (js ''note''), Save] popup_page \<and>
   console (load_page example_platform (js ''cash'')
         (run example_platform [Open (js ''cash''), TypeText (js ''note''), Save] popup_page)) =
      console (run example_platform [Open (js ''cash''), TypeText (js ''note''), Save] popup_page)"
    by blast
  show ?thesis
    using h a b by (intro conjI) blast+
qed

end
